theory Spec2Isabelle
  imports Main "HOL-Library.Word"
begin

section \<open>The RPC sequencer proxy of \<^verbatim>\<open>rpcsequencer.cpp\<close>\<close>

text \<open>
  The proxy \<^verbatim>\<open>RpcSequencer\<close> translates calls into messages handed to a process-wide
  transport (\<^verbatim>\<open>rpcChannel()\<close>), and registers one listener with that transport which
  routes inbound messages through a handler table. The table is a \<^verbatim>\<open>static\<close> local
  of the listener lambda, so there is one table for the whole process, while the handlers
  stored in it are closures that captured the \<^verbatim>\<open>this\<close> pointer of the proxy whose
  listener built the table. The model therefore keeps a store of proxy objects indexed by
  address, next to the process-wide state (transport, handler table, channel objects, log).
\<close>

subsection \<open>Values carried by messages\<close>

text \<open>
  Modelled from the spec: the enumeration \<^verbatim>\<open>TargetName\<close> and the class \<^verbatim>\<open>Target\<close> are
  declared in a header that is not part of the sources. The source names one target,
  \<^verbatim>\<open>TargetName::Sequencer\<close>; the spec says a target is an opaque identifier with a total
  equality. Every other name is \<open>OtherTarget n\<close>.
\<close>

datatype TargetName = Sequencer | OtherTarget nat

datatype Target = Target TargetName

type_synonym Method = string

text \<open>
  Modelled from the spec: \<^verbatim>\<open>ISequencer::Status\<close> is declared in a header that is not part of
  the sources; the spec describes it as a small enumeration of playback states
  (stopped, playing, paused).
\<close>

datatype Status = Stopped | Playing | Paused

text \<open>
  Keys and payloads whose types are declared outside the sources. A track identifier and a
  tick are opaque to this file (they are only stored, compared and forwarded); a
  \<^verbatim>\<open>float\<close> is stored and returned without any arithmetic, so it is represented by its 32-bit
  pattern; a \<^verbatim>\<open>std::shared_ptr\<close> is the address it points to; \<^verbatim>\<open>midi::MidiData\<close> is an
  opaque payload.
\<close>

type_synonym track_id = nat
type_synonym tick_t = int
type_synonym float = "32 word"
type_synonym uint64_t = "64 word"

datatype MidiStreamPtr = MidiStreamPtr nat
datatype IAudioStreamPtr = IAudioStreamPtr nat
datatype MidiData = MidiData nat

text \<open>
  Modelled from the spec: \<^verbatim>\<open>Args\<close> is declared in a header that is not part of the sources.
  It is an ordered, heterogeneous, positionally typed argument list; each position is read
  at a statically expected type, and reading a position at the wrong type (or a position
  that does not exist) is a contract violation that fails fast.
\<close>

datatype Arg =
    ArgTrackId track_id
  | ArgStatus Status
  | ArgFloat float
  | ArgTick tick_t
  | ArgUInt64 uint64_t
  | ArgMidiStream MidiStreamPtr
  | ArgAudioStream IAudioStreamPtr
  | ArgMidiData MidiData

type_synonym Args = "Arg list"

datatype Msg = Msg (msg_target: Target) (msg_method: Method) (msg_args: Args)

text \<open>The two-argument constructor \<^verbatim>\<open>Msg(target, method)\<close> carries no arguments.\<close>

definition Msg2 :: "Target \<Rightarrow> Method \<Rightarrow> Msg" where
  "Msg2 t m = Msg t m []"

definition make_arg1 :: "Arg \<Rightarrow> Args" where
  "make_arg1 a = [a]"

definition make_arg2 :: "Arg \<Rightarrow> Arg \<Rightarrow> Args" where
  "make_arg2 a b = [a, b]"

subsection \<open>Failures\<close>

text \<open>
  \<open>NotImplemented\<close> is the signal of the macro \<^verbatim>\<open>NOT_IMPLEMENTED\<close>; \<open>ArgMismatch\<close> is a
  failed \<^verbatim>\<open>args.arg<T>(i)\<close>; \<open>InvalidThis\<close> stands for the undefined behaviour of C++
  when a member function or a closure that captured \<^verbatim>\<open>this\<close> runs on an address at which
  no proxy object lives.
\<close>

datatype error = NotImplemented | ArgMismatch | InvalidThis

text \<open>
  Modelled from the spec: \<^verbatim>\<open>args.arg<T>(i)\<close> reads position \<open>i\<close> at type \<open>T\<close>; the four
  instances below are the types at which the handlers read.
\<close>

definition arg_track_id :: "Args \<Rightarrow> nat \<Rightarrow> error + track_id" where
  "arg_track_id a i =
     (if i < length a then (case a ! i of ArgTrackId v \<Rightarrow> Inr v | _ \<Rightarrow> Inl ArgMismatch)
      else Inl ArgMismatch)"

definition arg_Status :: "Args \<Rightarrow> nat \<Rightarrow> error + Status" where
  "arg_Status a i =
     (if i < length a then (case a ! i of ArgStatus v \<Rightarrow> Inr v | _ \<Rightarrow> Inl ArgMismatch)
      else Inl ArgMismatch)"

definition arg_float :: "Args \<Rightarrow> nat \<Rightarrow> error + float" where
  "arg_float a i =
     (if i < length a then (case a ! i of ArgFloat v \<Rightarrow> Inr v | _ \<Rightarrow> Inl ArgMismatch)
      else Inl ArgMismatch)"

definition arg_tick :: "Args \<Rightarrow> nat \<Rightarrow> error + tick_t" where
  "arg_tick a i =
     (if i < length a then (case a ! i of ArgTick v \<Rightarrow> Inr v | _ \<Rightarrow> Inl ArgMismatch)
      else Inl ArgMismatch)"

subsection \<open>Objects and process-wide state\<close>

type_synonym addr = nat
type_synonym chan_id = nat

text \<open>
  The fields of \<^verbatim>\<open>RpcSequencer\<close>. \<open>m_statusChanged\<close> is the sequence of values pushed to
  the status channel and \<open>m_positionChanged\<close> the number of notifications emitted. The
  registry \<open>m_midiTickPlayed\<close> maps a track to the identity of its channel object; the
  channel objects themselves live in the process-wide store, because a
  \<^verbatim>\<open>Channel\<close> returned to a caller is a handle to the same object.
\<close>

record RpcSequencer =
  m_target :: Target
  m_listenID :: nat
  m_status :: Status
  m_playbackPosition :: float
  m_statusChanged :: "Status list"
  m_positionChanged :: nat
  m_midiTickPlayed :: "track_id \<rightharpoonup> chan_id"

text \<open>A handler closure of the table: which of the three lambdas, and the \<^verbatim>\<open>this\<close> it captured.\<close>

datatype Handler = StatusChangedHandler | PositionChangedHandler | MidiTickPlayedHandler

datatype Call = Call (handler: Handler) (captured: addr)

text \<open>
  Modelled from the spec: the transport behind \<^verbatim>\<open>rpcChannel()\<close> is an external collaborator
  and not part of the sources. \<open>sent\<close> is the sequence of messages handed to it by
  \<^verbatim>\<open>send\<close>; \<open>listeners\<close> are the registered listener closures, each under the token that
  \<^verbatim>\<open>listen\<close> returned for it and represented by the \<^verbatim>\<open>this\<close> it captured (the only
  listener lambda of this file is the one of \<^verbatim>\<open>RpcSequencer::setup\<close>).
\<close>

record RpcChannel =
  serialized :: bool
  listeners :: "(nat \<times> addr) list"
  next_listen :: nat
  sent :: "Msg list"

text \<open>
  The whole process. \<open>calls\<close> is the \<^verbatim>\<open>static std::map<Method, Call> calls\<close> of the
  listener lambda. \<open>channels c\<close> are the ticks pushed so far to the channel object \<open>c\<close>,
  and \<open>next_channel\<close> is the next unused channel identity. \<open>logged\<close> are the lines
  written by \<^verbatim>\<open>LOGE()\<close>. \<open>invoked\<close> is a history of the handler closures that were run by
  \<^verbatim>\<open>it->second(msg.args)\<close>; the program never reads it.
\<close>

record world =
  objs :: "addr \<rightharpoonup> RpcSequencer"
  rpc :: RpcChannel
  calls :: "(Method \<times> Call) list"
  channels :: "chan_id \<Rightarrow> tick_t list"
  next_channel :: chan_id
  logged :: "string list"
  invoked :: "Call list"

subsection \<open>The transport\<close>

text \<open>
  Modelled from the spec: the four operations of the transport's interface.
  \<^verbatim>\<open>send\<close> is a non-blocking hand-off that keeps the order of the messages;
  \<^verbatim>\<open>listen\<close> registers a listener and returns a fresh token; \<^verbatim>\<open>unlisten\<close> removes
  the registrations under a token and is idempotent; \<^verbatim>\<open>isSerialized\<close> reads the mode.
\<close>

definition send :: "Msg \<Rightarrow> world \<Rightarrow> world" where
  "send msg w = w\<lparr>rpc := (rpc w)\<lparr>sent := sent (rpc w) @ [msg]\<rparr>\<rparr>"

definition isSerialized :: "world \<Rightarrow> bool" where
  "isSerialized w = serialized (rpc w)"

definition listen :: "addr \<Rightarrow> world \<Rightarrow> nat \<times> world" where
  "listen this w =
     (next_listen (rpc w),
      w\<lparr>rpc := (rpc w)\<lparr>listeners := listeners (rpc w) @ [(next_listen (rpc w), this)],
                        next_listen := Suc (next_listen (rpc w))\<rparr>\<rparr>)"

definition unlisten :: "nat \<Rightarrow> world \<Rightarrow> world" where
  "unlisten i w = w\<lparr>rpc := (rpc w)\<lparr>listeners := filter (\<lambda>l. fst l \<noteq> i) (listeners (rpc w))\<rparr>\<rparr>"

subsection \<open>Channels, logging and the macro of the guard\<close>

text \<open>
  Modelled from the spec: \<^verbatim>\<open>async::Channel\<close> and \<^verbatim>\<open>LOGE()\<close> are declared outside the
  sources. \<^verbatim>\<open>async::Channel<tick_t>()\<close> is a new, empty channel object with an identity
  of its own; \<^verbatim>\<open>send\<close> on a channel pushes a value to it; \<^verbatim>\<open>LOGE()\<close> writes a line to
  the log.
\<close>

definition new_Channel :: "world \<Rightarrow> chan_id \<times> world" where
  "new_Channel w =
     (next_channel w,
      w\<lparr>channels := (channels w)(next_channel w := []), next_channel := Suc (next_channel w)\<rparr>)"

definition Channel_send :: "chan_id \<Rightarrow> tick_t \<Rightarrow> world \<Rightarrow> world" where
  "Channel_send c t w = w\<lparr>channels := (channels w)(c := channels w c @ [t])\<rparr>"

definition LOGE :: "string \<Rightarrow> world \<Rightarrow> world" where
  "LOGE line w = w\<lparr>logged := logged w @ [line]\<rparr>"

text \<open>
  Modelled from the spec: the macro \<^verbatim>\<open>NOT_IMPLEMENTED\<close> comes from \<^verbatim>\<open>log.h\<close>, which is not
  part of the sources. The spec describes it as an explicit "not implemented" failure
  raised to the caller synchronously: the operation fails immediately and nothing is
  transmitted.
\<close>

definition NOT_IMPLEMENTED :: "world \<Rightarrow> (error + 'a) \<times> world" where
  "NOT_IMPLEMENTED w = (Inl NotImplemented, w)"

subsection \<open>Inbound side: the handlers and the listener of \<^verbatim>\<open>setup\<close>\<close>

text \<open>
  \<^verbatim>\<open>m_status = args.arg<Status>(0); m_statusChanged.send(m_status);\<close>
  on the captured \<^verbatim>\<open>this\<close>.
\<close>

definition statusChanged_handler :: "addr \<Rightarrow> Args \<Rightarrow> world \<Rightarrow> (error + unit) \<times> world" where
  "statusChanged_handler this a w =
     (case objs w this of
        None \<Rightarrow> (Inl InvalidThis, w)
      | Some self \<Rightarrow>
          (case arg_Status a 0 of
             Inl e \<Rightarrow> (Inl e, w)
           | Inr s \<Rightarrow>
               (Inr (), w\<lparr>objs := (objs w)(this \<mapsto>
                   self\<lparr>m_status := s, m_statusChanged := m_statusChanged self @ [s]\<rparr>)\<rparr>)))"

text \<open>
  \<^verbatim>\<open>m_playbackPosition = args.arg<float>(0); m_positionChanged.notify();\<close>
\<close>

definition positionChanged_handler :: "addr \<Rightarrow> Args \<Rightarrow> world \<Rightarrow> (error + unit) \<times> world" where
  "positionChanged_handler this a w =
     (case objs w this of
        None \<Rightarrow> (Inl InvalidThis, w)
      | Some self \<Rightarrow>
          (case arg_float a 0 of
             Inl e \<Rightarrow> (Inl e, w)
           | Inr p \<Rightarrow>
               (Inr (), w\<lparr>objs := (objs w)(this \<mapsto>
                   self\<lparr>m_playbackPosition := p,
                        m_positionChanged := Suc (m_positionChanged self)\<rparr>)\<rparr>)))"

text \<open>
  \<^verbatim>\<open>m_midiTickPlayed[trackID].send(tick)\<close>: \<^verbatim>\<open>operator[]\<close> of \<^verbatim>\<open>std::map\<close> inserts a
  default-constructed channel when the key is absent.
\<close>

definition midiTickPlayed_handler :: "addr \<Rightarrow> Args \<Rightarrow> world \<Rightarrow> (error + unit) \<times> world" where
  "midiTickPlayed_handler this a w =
     (case objs w this of
        None \<Rightarrow> (Inl InvalidThis, w)
      | Some self \<Rightarrow>
          (case arg_track_id a 0 of
             Inl e \<Rightarrow> (Inl e, w)
           | Inr trackID \<Rightarrow>
               (case arg_tick a 1 of
                  Inl e \<Rightarrow> (Inl e, w)
                | Inr tick \<Rightarrow>
                    (case m_midiTickPlayed self trackID of
                       Some c \<Rightarrow> (Inr (), Channel_send c tick w)
                     | None \<Rightarrow>
                         (let (c, w1) = new_Channel w;
                              w2 = w1\<lparr>objs := (objs w1)(this \<mapsto>
                                     self\<lparr>m_midiTickPlayed := (m_midiTickPlayed self)(trackID \<mapsto> c)\<rparr>)\<rparr>
                          in (Inr (), Channel_send c tick w2))))))"

text \<open>\<^verbatim>\<open>it->second(msg.args)\<close>: run a closure of the table.\<close>

definition invoke :: "Call \<Rightarrow> Args \<Rightarrow> world \<Rightarrow> (error + unit) \<times> world" where
  "invoke c a w =
     (let w1 = w\<lparr>invoked := invoked w @ [c]\<rparr>
      in case handler c of
           StatusChangedHandler \<Rightarrow> statusChanged_handler (captured c) a w1
         | PositionChangedHandler \<Rightarrow> positionChanged_handler (captured c) a w1
         | MidiTickPlayedHandler \<Rightarrow> midiTickPlayed_handler (captured c) a w1)"

text \<open>\<^verbatim>\<open>calls.insert({ method, call })\<close>: \<^verbatim>\<open>std::map::insert\<close> keeps an existing entry.\<close>

definition bindMethod :: "(Method \<times> Call) list \<Rightarrow> Method \<Rightarrow> Call \<Rightarrow> (Method \<times> Call) list" where
  "bindMethod cs m c = (if m \<in> fst ` set cs then cs else cs @ [(m, c)])"

text \<open>The block guarded by \<^verbatim>\<open>if (calls.empty())\<close>, run by the listener of the proxy at \<open>this\<close>.\<close>

definition bind_calls :: "addr \<Rightarrow> world \<Rightarrow> world" where
  "bind_calls this w =
     (if calls w = [] then
        w\<lparr>calls :=
            bindMethod
              (bindMethod
                 (bindMethod (calls w) ''statusChanged'' (Call StatusChangedHandler this))
                 ''positionChanged'' (Call PositionChangedHandler this))
              ''midiTickPlayed'' (Call MidiTickPlayedHandler this)\<rparr>
      else w)"

text \<open>The lambda registered by \<^verbatim>\<open>setup\<close>, for the proxy at \<open>this\<close>.\<close>

definition listener :: "addr \<Rightarrow> Msg \<Rightarrow> world \<Rightarrow> (error + unit) \<times> world" where
  "listener this msg w =
     (case objs w this of
        None \<Rightarrow> (Inl InvalidThis, w)
      | Some self \<Rightarrow>
          if msg_target msg \<noteq> m_target self then (Inr (), w)
          else
            (let w1 = bind_calls this w
             in case map_of (calls w1) (msg_method msg) of
                  None \<Rightarrow> (Inr (), LOGE (''not found method: '' @ msg_method msg) w1)
                | Some call \<Rightarrow> invoke call (msg_args msg) w1))"

text \<open>
  Modelled from the spec: the transport delivers a message to all registered listeners
  (broadcast), here in registration order; a fault raised by a listener reaches the
  delivery context and ends the delivery.
\<close>

fun deliver_to :: "(nat \<times> addr) list \<Rightarrow> Msg \<Rightarrow> world \<Rightarrow> (error + unit) \<times> world" where
  "deliver_to [] msg w = (Inr (), w)"
| "deliver_to (l # ls) msg w =
     (case listener (snd l) msg w of
        (Inl e, w') \<Rightarrow> (Inl e, w')
      | (Inr u, w') \<Rightarrow> deliver_to ls msg w')"

definition deliver :: "Msg \<Rightarrow> world \<Rightarrow> (error + unit) \<times> world" where
  "deliver msg w = deliver_to (listeners (rpc w)) msg w"

subsection \<open>Life cycle\<close>

text \<open>\<^verbatim>\<open>m_listenID = rpcChannel()->listen(...)\<close>\<close>

definition setup_proxy :: "addr \<Rightarrow> world \<Rightarrow> (error + unit) \<times> world" where
  "setup_proxy this w =
     (case objs w this of
        None \<Rightarrow> (Inl InvalidThis, w)
      | Some self \<Rightarrow>
          (let (i, w1) = listen this w
           in (Inr (), w1\<lparr>objs := (objs w1)(this \<mapsto> self\<lparr>m_listenID := i\<rparr>)\<rparr>)))"

text \<open>The destructor: \<^verbatim>\<open>rpcChannel()->unlisten(m_listenID)\<close>, then the object is gone.\<close>

definition destroy :: "addr \<Rightarrow> world \<Rightarrow> (error + unit) \<times> world" where
  "destroy this w =
     (case objs w this of
        None \<Rightarrow> (Inl InvalidThis, w)
      | Some self \<Rightarrow>
          (let w1 = unlisten (m_listenID self) w
           in (Inr (), w1\<lparr>objs := (objs w1)(this := None)\<rparr>)))"

subsection \<open>Outbound side: the public operations\<close>

definition status :: "addr \<Rightarrow> world \<Rightarrow> (error + Status) \<times> world" where
  "status this w =
     (case objs w this of
        None \<Rightarrow> (Inl InvalidThis, w)
      | Some self \<Rightarrow> (Inr (m_status self), w))"

definition playbackPosition :: "addr \<Rightarrow> world \<Rightarrow> (error + float) \<times> world" where
  "playbackPosition this w =
     (case objs w this of
        None \<Rightarrow> (Inl InvalidThis, w)
      | Some self \<Rightarrow> (Inr (m_playbackPosition self), w))"

definition initMIDITrack :: "addr \<Rightarrow> track_id \<Rightarrow> world \<Rightarrow> (error + unit) \<times> world" where
  "initMIDITrack this id' w =
     (case objs w this of
        None \<Rightarrow> (Inl InvalidThis, w)
      | Some self \<Rightarrow>
          (Inr (), send (Msg (m_target self) ''initMIDITrack'' (make_arg1 (ArgTrackId id'))) w))"

definition initAudioTrack :: "addr \<Rightarrow> track_id \<Rightarrow> world \<Rightarrow> (error + unit) \<times> world" where
  "initAudioTrack this id' w =
     (case objs w this of
        None \<Rightarrow> (Inl InvalidThis, w)
      | Some self \<Rightarrow>
          (Inr (), send (Msg (m_target self) ''initAudioTrack'' (make_arg1 (ArgTrackId id'))) w))"

definition setMIDITrack ::
  "addr \<Rightarrow> track_id \<Rightarrow> MidiStreamPtr \<Rightarrow> world \<Rightarrow> (error + unit) \<times> world" where
  "setMIDITrack this id' stream w =
     (case objs w this of
        None \<Rightarrow> (Inl InvalidThis, w)
      | Some self \<Rightarrow>
          if isSerialized w then NOT_IMPLEMENTED w
          else (Inr (), send (Msg (m_target self) ''setMIDITrack''
                                 (make_arg2 (ArgTrackId id') (ArgMidiStream stream))) w))"

definition setAudioTrack ::
  "addr \<Rightarrow> track_id \<Rightarrow> IAudioStreamPtr \<Rightarrow> world \<Rightarrow> (error + unit) \<times> world" where
  "setAudioTrack this id' stream w =
     (case objs w this of
        None \<Rightarrow> (Inl InvalidThis, w)
      | Some self \<Rightarrow>
          if isSerialized w then NOT_IMPLEMENTED w
          else (Inr (), send (Msg (m_target self) ''setAudioTrack''
                                 (make_arg2 (ArgTrackId id') (ArgAudioStream stream))) w))"

definition play :: "addr \<Rightarrow> world \<Rightarrow> (error + unit) \<times> world" where
  "play this w =
     (case objs w this of
        None \<Rightarrow> (Inl InvalidThis, w)
      | Some self \<Rightarrow> (Inr (), send (Msg2 (m_target self) ''play'') w))"

definition pause :: "addr \<Rightarrow> world \<Rightarrow> (error + unit) \<times> world" where
  "pause this w =
     (case objs w this of
        None \<Rightarrow> (Inl InvalidThis, w)
      | Some self \<Rightarrow> (Inr (), send (Msg2 (m_target self) ''pause'') w))"

definition stop :: "addr \<Rightarrow> world \<Rightarrow> (error + unit) \<times> world" where
  "stop this w =
     (case objs w this of
        None \<Rightarrow> (Inl InvalidThis, w)
      | Some self \<Rightarrow> (Inr (), send (Msg2 (m_target self) ''stop'') w))"

definition seek :: "addr \<Rightarrow> uint64_t \<Rightarrow> world \<Rightarrow> (error + unit) \<times> world" where
  "seek this position w =
     (case objs w this of
        None \<Rightarrow> (Inl InvalidThis, w)
      | Some self \<Rightarrow>
          (Inr (), send (Msg (m_target self) ''seek'' (make_arg1 (ArgUInt64 position))) w))"

definition rewind :: "addr \<Rightarrow> world \<Rightarrow> (error + unit) \<times> world" where
  "rewind this w =
     (case objs w this of
        None \<Rightarrow> (Inl InvalidThis, w)
      | Some self \<Rightarrow> (Inr (), send (Msg2 (m_target self) ''rewind'') w))"

definition setLoop :: "addr \<Rightarrow> uint64_t \<Rightarrow> uint64_t \<Rightarrow> world \<Rightarrow> (error + unit) \<times> world" where
  "setLoop this fromMiliSeconds toMiliSeconds w =
     (case objs w this of
        None \<Rightarrow> (Inl InvalidThis, w)
      | Some self \<Rightarrow>
          (Inr (), send (Msg (m_target self) ''setLoop''
                           (make_arg2 (ArgUInt64 fromMiliSeconds) (ArgUInt64 toMiliSeconds))) w))"

definition unsetLoop :: "addr \<Rightarrow> world \<Rightarrow> (error + unit) \<times> world" where
  "unsetLoop this w =
     (case objs w this of
        None \<Rightarrow> (Inl InvalidThis, w)
      | Some self \<Rightarrow> (Inr (), send (Msg2 (m_target self) ''unsetLoop'') w))"

text \<open>
  The accessor of the subscription registry. On a miss it sends the bind request, then
  inserts a new channel; in both cases it returns the channel stored under the key.
\<close>

definition midiTickPlayed :: "addr \<Rightarrow> track_id \<Rightarrow> world \<Rightarrow> (error + chan_id) \<times> world" where
  "midiTickPlayed this id' w =
     (case objs w this of
        None \<Rightarrow> (Inl InvalidThis, w)
      | Some self \<Rightarrow>
          (case m_midiTickPlayed self id' of
             Some c \<Rightarrow> (Inr c, w)
           | None \<Rightarrow>
               (let w1 = send (Msg (m_target self) ''bindMidiTickPlayed''
                                 (make_arg1 (ArgTrackId id'))) w;
                    (c, w2) = new_Channel w1
                in (Inr c, w2\<lparr>objs := (objs w2)(this \<mapsto>
                      self\<lparr>m_midiTickPlayed := (m_midiTickPlayed self)(id' \<mapsto> c)\<rparr>)\<rparr>))))"

text \<open>The result \<open>None\<close> is the \<^verbatim>\<open>nullptr\<close> that the function returns.\<close>

definition instantlyPlayMidi ::
  "addr \<Rightarrow> MidiData \<Rightarrow> world \<Rightarrow> (error + nat option) \<times> world" where
  "instantlyPlayMidi this data w =
     (case objs w this of
        None \<Rightarrow> (Inl InvalidThis, w)
      | Some self \<Rightarrow>
          if isSerialized w then NOT_IMPLEMENTED w
          else (Inr None, send (Msg (m_target self) ''instantlyPlayMidi''
                                  (make_arg1 (ArgMidiData data))) w))"

subsection \<open>Vocabulary of the statements\<close>

text \<open>
  The table that the guarded block of the listener builds when it runs for the proxy at
  \<open>this\<close>.
\<close>

definition calls_of :: "addr \<Rightarrow> (Method \<times> Call) list" where
  "calls_of this =
     [(''statusChanged'', Call StatusChangedHandler this),
      (''positionChanged'', Call PositionChangedHandler this),
      (''midiTickPlayed'', Call MidiTickPlayedHandler this)]"

text \<open>
  The handler table is not built yet, or it was built by the listener of the proxy at
  \<open>this\<close>. This holds throughout any process in which only this proxy's listener receives
  messages, in particular in any process with a single proxy.
\<close>

definition table_bound_to :: "addr \<Rightarrow> world \<Rightarrow> bool" where
  "table_bound_to this w = (calls w = [] \<or> calls w = calls_of this)"

text \<open>
  An example proxy and a process with that one proxy at address 0. The constructor sets
  \<open>m_target\<close> to the sequencer's target; the initial values of the other fields are
  declared in the header, which is not part of the sources, and are chosen here: stopped,
  position 0, nothing pushed or notified yet, an empty registry. The theorems below hold
  for every proxy object; these values only serve as concrete inputs.
\<close>

definition new_proxy :: RpcSequencer where
  "new_proxy =
     \<lparr>m_target = Target Sequencer, m_listenID = 0, m_status = Stopped,
      m_playbackPosition = 0, m_statusChanged = [], m_positionChanged = 0,
      m_midiTickPlayed = Map.empty\<rparr>"

definition one_proxy_world :: "bool \<Rightarrow> world" where
  "one_proxy_world ser =
     \<lparr>objs = [0 \<mapsto> new_proxy],
      rpc = \<lparr>serialized = ser, listeners = [], next_listen = 0, sent = []\<rparr>,
      calls = [], channels = (\<lambda>c. []), next_channel = 0, logged = [], invoked = []\<rparr>"

text \<open>Two proxies, at addresses 0 and 1, in one process.\<close>

definition two_proxy_world :: world where
  "two_proxy_world =
     \<lparr>objs = [0 \<mapsto> new_proxy, 1 \<mapsto> new_proxy],
      rpc = \<lparr>serialized = False, listeners = [], next_listen = 0, sent = []\<rparr>,
      calls = [], channels = (\<lambda>c. []), next_channel = 0, logged = [], invoked = []\<rparr>"

text \<open>The registry of the proxy at \<open>this\<close> (empty when no proxy lives there).\<close>

definition registry :: "addr \<Rightarrow> world \<Rightarrow> track_id \<rightharpoonup> chan_id" where
  "registry this w = (case objs w this of None \<Rightarrow> Map.empty | Some self \<Rightarrow> m_midiTickPlayed self)"

text \<open>
  A use of the proxy at \<open>this\<close>: a local call of \<^verbatim>\<open>midiTickPlayed(k)\<close>, or a message that
  the transport hands to the proxy's listener. \<open>run\<close> performs a sequence of uses and
  collects, for every local call, the key and the channel that was returned; a fault ends
  the sequence.
\<close>

datatype action = Access track_id | Inbound Msg

fun run :: "addr \<Rightarrow> action list \<Rightarrow> world \<Rightarrow> (error + (track_id \<times> chan_id) list) \<times> world" where
  "run this [] w = (Inr [], w)"
| "run this (Access k # as) w =
     (case midiTickPlayed this k w of
        (Inl e, w') \<Rightarrow> (Inl e, w')
      | (Inr c, w') \<Rightarrow>
          (case run this as w' of
             (Inl e, w'') \<Rightarrow> (Inl e, w'')
           | (Inr rs, w'') \<Rightarrow> (Inr ((k, c) # rs), w'')))"
| "run this (Inbound msg # as) w =
     (case listener this msg w of
        (Inl e, w') \<Rightarrow> (Inl e, w')
      | (Inr u, w') \<Rightarrow> run this as w')"

text \<open>The bind request for key \<open>K\<close>, and how many of them a sequence of messages holds.\<close>

definition bind_request :: "Target \<Rightarrow> track_id \<Rightarrow> Msg" where
  "bind_request T K = Msg T ''bindMidiTickPlayed'' [ArgTrackId K]"

definition bind_requests :: "Target \<Rightarrow> track_id \<Rightarrow> Msg list \<Rightarrow> nat" where
  "bind_requests T K ms = length (filter (\<lambda>m. m = bind_request T K) ms)"

text \<open>An inbound \<^verbatim>\<open>midiTickPlayed\<close> event for key \<open>K\<close>, addressed to target \<open>T\<close>.\<close>

definition tick_event_for :: "Target \<Rightarrow> track_id \<Rightarrow> Msg \<Rightarrow> bool" where
  "tick_event_for T K msg =
     (msg_target msg = T \<and> msg_method msg = ''midiTickPlayed'' \<and>
      arg_track_id (msg_args msg) 0 = Inr K)"

text \<open>
  In the sequence, a local access for \<open>K\<close> comes before every inbound tick event for \<open>K\<close>
  (and there is such an access).
\<close>

fun local_first :: "Target \<Rightarrow> track_id \<Rightarrow> action list \<Rightarrow> bool" where
  "local_first T K [] = False"
| "local_first T K (Access k # as) = (k = K \<or> local_first T K as)"
| "local_first T K (Inbound msg # as) = (\<not> tick_event_for T K msg \<and> local_first T K as)"

text \<open>The runs of handler closures that captured the proxy at \<open>this\<close>.\<close>

definition runs_on :: "addr \<Rightarrow> world \<Rightarrow> Call list" where
  "runs_on this w = filter (\<lambda>c. captured c = this) (invoked w)"

text \<open>The three events that the remote engine emits, as messages addressed to \<open>T\<close>.\<close>

definition status_event :: "Target \<Rightarrow> Status \<Rightarrow> Msg" where
  "status_event T S = Msg T ''statusChanged'' [ArgStatus S]"

definition position_event :: "Target \<Rightarrow> float \<Rightarrow> Msg" where
  "position_event T P = Msg T ''positionChanged'' [ArgFloat P]"

definition tick_event :: "Target \<Rightarrow> track_id \<Rightarrow> tick_t \<Rightarrow> Msg" where
  "tick_event T K t = Msg T ''midiTickPlayed'' [ArgTrackId K, ArgTick t]"

text \<open>The world \<open>w\<close> after one more message was handed to the transport, and nothing else.\<close>

definition with_sent :: "world \<Rightarrow> Msg \<Rightarrow> world" where
  "with_sent w m = w\<lparr>rpc := (rpc w)\<lparr>sent := sent (rpc w) @ [m]\<rparr>\<rparr>"

text \<open>Both proxies of \<open>two_proxy_world\<close> after their \<^verbatim>\<open>setup()\<close>, first the one at 0.\<close>

definition two_proxies_listening :: world where
  "two_proxies_listening = snd (setup_proxy 1 (snd (setup_proxy 0 two_proxy_world)))"

text \<open>The single proxy of \<open>one_proxy_world\<close> after its \<^verbatim>\<open>setup()\<close>, on a direct transport.\<close>

definition one_proxy_listening :: world where
  "one_proxy_listening = snd (setup_proxy 0 (one_proxy_world False))"

text \<open>
  The process of \<open>two_proxies_listening\<close> after the transport has delivered one
  \<^verbatim>\<open>statusChanged(Playing)\<close>: the listener of the proxy at 0 ran first and built the
  handler table.
\<close>

definition after_first_delivery :: world where
  "after_first_delivery =
     snd (deliver (status_event (Target Sequencer) Playing) two_proxies_listening)"

text \<open>
  From \<open>w\<close> to \<open>w'\<close> the proxy at \<open>this\<close> stays alive with its target, every key of its
  registry keeps its channel, and nothing is handed to the transport.
\<close>

definition keeps_proxy :: "addr \<Rightarrow> RpcSequencer \<Rightarrow> world \<Rightarrow> world \<Rightarrow> bool" where
  "keeps_proxy this self w w' =
     ((\<exists>self'. objs w' this = Some self' \<and> m_target self' = m_target self
          \<and> (\<forall>K c. m_midiTickPlayed self K = Some c \<longrightarrow> m_midiTickPlayed self' K = Some c))
      \<and> sent (rpc w') = sent (rpc w))"

section \<open>Auxiliary facts\<close>

subsection \<open>The handler table and the listener\<close>

lemma bind_calls_empty: "calls w = [] \<Longrightarrow> bind_calls this w = w\<lparr>calls := calls_of this\<rparr>"
  by (simp add: bind_calls_def bindMethod_def calls_of_def)

lemma bind_calls_nonempty: "calls w \<noteq> [] \<Longrightarrow> bind_calls this w = w"
  by (simp add: bind_calls_def)

lemma bind_calls_bound:
  "table_bound_to this w \<Longrightarrow> bind_calls this w = w\<lparr>calls := calls_of this\<rparr>"
  unfolding table_bound_to_def
proof (erule disjE)
  assume "calls w = []"
  then show ?thesis by (rule bind_calls_empty)
next
  assume c: "calls w = calls_of this"
  then have "calls w \<noteq> []" by (simp add: calls_of_def)
  then have "bind_calls this w = w" by (rule bind_calls_nonempty)
  with c show ?thesis by simp
qed

lemma listener_matching:
  "objs w this = Some self \<Longrightarrow> msg_target msg = m_target self \<Longrightarrow>
   listener this msg w =
     (case map_of (calls (bind_calls this w)) (msg_method msg) of
        None \<Rightarrow> (Inr (), LOGE (''not found method: '' @ msg_method msg) (bind_calls this w))
      | Some call \<Rightarrow> invoke call (msg_args msg) (bind_calls this w))"
  by (simp add: listener_def Let_def)

lemma listener_statusChanged:
  assumes "objs w this = Some self" and "table_bound_to this w"
  shows "listener this (Msg (m_target self) ''statusChanged'' (ArgStatus S # rest)) w =
     (Inr (), w\<lparr>objs := (objs w)(this \<mapsto> self\<lparr>m_status := S, m_statusChanged := m_statusChanged self @ [S]\<rparr>),
               calls := calls_of this,
               invoked := invoked w @ [Call StatusChangedHandler this]\<rparr>)"
  using assms
  by (simp add: listener_matching bind_calls_bound calls_of_def invoke_def
      statusChanged_handler_def arg_Status_def)

lemma listener_positionChanged:
  assumes "objs w this = Some self" and "table_bound_to this w"
  shows "listener this (Msg (m_target self) ''positionChanged'' (ArgFloat P # rest)) w =
     (Inr (), w\<lparr>objs := (objs w)(this \<mapsto> self\<lparr>m_playbackPosition := P, m_positionChanged := Suc (m_positionChanged self)\<rparr>),
               calls := calls_of this,
               invoked := invoked w @ [Call PositionChangedHandler this]\<rparr>)"
  using assms
  by (simp add: listener_matching bind_calls_bound calls_of_def invoke_def
      positionChanged_handler_def arg_float_def)

lemma listener_midiTickPlayed_new:
  assumes "objs w this = Some self" and "table_bound_to this w" and "m_midiTickPlayed self K = None"
  shows "listener this (Msg (m_target self) ''midiTickPlayed'' (ArgTrackId K # ArgTick t # rest)) w =
     (Inr (), w\<lparr>objs := (objs w)(this \<mapsto> self\<lparr>m_midiTickPlayed := (m_midiTickPlayed self)(K \<mapsto> next_channel w)\<rparr>),
               calls := calls_of this,
               channels := (channels w)(next_channel w := [t]),
               next_channel := Suc (next_channel w),
               invoked := invoked w @ [Call MidiTickPlayedHandler this]\<rparr>)"
  using assms
  by (simp add: listener_matching bind_calls_bound calls_of_def invoke_def
      midiTickPlayed_handler_def arg_track_id_def arg_tick_def new_Channel_def Channel_send_def)

lemma listener_midiTickPlayed_old:
  assumes "objs w this = Some self" and "table_bound_to this w" and "m_midiTickPlayed self K = Some c"
  shows "listener this (Msg (m_target self) ''midiTickPlayed'' (ArgTrackId K # ArgTick t # rest)) w =
     (Inr (), w\<lparr>calls := calls_of this,
               channels := (channels w)(c := channels w c @ [t]),
               invoked := invoked w @ [Call MidiTickPlayedHandler this]\<rparr>)"
  using assms
  by (simp add: listener_matching bind_calls_bound calls_of_def invoke_def
      midiTickPlayed_handler_def arg_track_id_def arg_tick_def new_Channel_def Channel_send_def)

lemma midiTickPlayed_hit:
  "objs w this = Some self \<Longrightarrow> m_midiTickPlayed self K = Some c \<Longrightarrow>
   midiTickPlayed this K w = (Inr c, w)"
  by (simp add: midiTickPlayed_def)

lemma midiTickPlayed_miss:
  "objs w this = Some self \<Longrightarrow> m_midiTickPlayed self K = None \<Longrightarrow>
   midiTickPlayed this K w =
     (Inr (next_channel w),
      w\<lparr>objs := (objs w)(this \<mapsto> self\<lparr>m_midiTickPlayed := (m_midiTickPlayed self)(K \<mapsto> next_channel w)\<rparr>),
        rpc := (rpc w)\<lparr>sent := sent (rpc w) @ [Msg (m_target self) ''bindMidiTickPlayed'' [ArgTrackId K]]\<rparr>,
        channels := (channels w)(next_channel w := []),
        next_channel := Suc (next_channel w)\<rparr>)"
  by (simp add: midiTickPlayed_def send_def make_arg1_def new_Channel_def)

subsection \<open>One use of the proxy, and sequences of uses\<close>

lemma table_bound_after: "calls w = calls_of this \<Longrightarrow> table_bound_to this w"
  by (simp add: table_bound_to_def)

lemma access_effect:
  assumes o: "objs w this = Some self" and tb: "table_bound_to this w"
    and r: "midiTickPlayed this k w = (x, w')"
  shows "x = Inr (case m_midiTickPlayed self k of Some c \<Rightarrow> c | None \<Rightarrow> next_channel w)
    \<and> (\<exists>self'. objs w' this = Some self' \<and> m_target self' = m_target self
          \<and> m_midiTickPlayed self' = (m_midiTickPlayed self)(k \<mapsto> (case m_midiTickPlayed self k of Some c \<Rightarrow> c | None \<Rightarrow> next_channel w)))
    \<and> table_bound_to this w'
    \<and> sent (rpc w') = sent (rpc w) @ (if m_midiTickPlayed self k = None then [bind_request (m_target self) k] else [])"
proof (cases "m_midiTickPlayed self k")
  case None
  with o r tb show ?thesis
    by (auto simp: midiTickPlayed_miss bind_request_def table_bound_to_def)
next
  case (Some c)
  with o r tb show ?thesis
    by (auto simp: midiTickPlayed_hit bind_request_def table_bound_to_def fun_upd_idem)
qed

lemma inbound_effect:
  assumes o: "objs w this = Some self" and tb: "table_bound_to this w"
    and r: "listener this msg w = (Inr u, w')"
  shows "(\<exists>self'. objs w' this = Some self' \<and> m_target self' = m_target self
          \<and> (\<forall>K. m_midiTickPlayed self' K =
                (if tick_event_for (m_target self) K msg \<and> m_midiTickPlayed self K = None
                 then Some (next_channel w) else m_midiTickPlayed self K)))
    \<and> table_bound_to this w'
    \<and> sent (rpc w') = sent (rpc w)"
proof (cases "msg_target msg = m_target self")
  case False
  with o r tb show ?thesis by (auto simp: listener_def tick_event_for_def)
next
  case True
  from o True have L: "listener this msg w =
     (case map_of (calls_of this) (msg_method msg) of
        None \<Rightarrow> (Inr (), LOGE (''not found method: '' @ msg_method msg) (w\<lparr>calls := calls_of this\<rparr>))
      | Some call \<Rightarrow> invoke call (msg_args msg) (w\<lparr>calls := calls_of this\<rparr>))"
    unfolding listener_matching [OF o True] bind_calls_bound [OF tb] by simp
  show ?thesis
    using r o True unfolding L
    by (auto simp: Let_def calls_of_def invoke_def LOGE_def table_bound_to_def tick_event_for_def
        statusChanged_handler_def positionChanged_handler_def midiTickPlayed_handler_def
        new_Channel_def Channel_send_def
        split: if_splits sum.splits option.splits)
qed


lemma bind_requests_append [simp]:
  "bind_requests T K (xs @ ys) = bind_requests T K xs + bind_requests T K ys"
  by (simp add: bind_requests_def)

lemma bind_requests_Nil [simp]: "bind_requests T K [] = 0"
  by (simp add: bind_requests_def)

lemma bind_requests_single [simp]:
  "bind_requests T K [bind_request T k] = (if k = K then 1 else 0)"
  by (simp add: bind_requests_def bind_request_def)

lemma run_registered:
  assumes "objs w this = Some self" and "table_bound_to this w"
    and "m_midiTickPlayed self K = Some c"
    and "run this acts w = (Inr rs, w')"
  shows "bind_requests (m_target self) K (sent (rpc w')) = bind_requests (m_target self) K (sent (rpc w))
       \<and> (\<forall>c'. (K, c') \<in> set rs \<longrightarrow> c' = c)
       \<and> (\<exists>self'. objs w' this = Some self' \<and> m_midiTickPlayed self' K = Some c)"
  using assms
proof (induction acts arbitrary: w self rs)
  case Nil
  then show ?case by simp
next
  case (Cons a acts)
  show ?case
  proof (cases a)
    case (Access k)
    obtain x w1 where s: "midiTickPlayed this k w = (x, w1)" by (cases "midiTickPlayed this k w")
    note e = access_effect [OF Cons.prems(1) Cons.prems(2) s]
    from e obtain self1 where o1: "objs w1 this = Some self1" and t1: "m_target self1 = m_target self"
      and m1: "m_midiTickPlayed self1 = (m_midiTickPlayed self)(k \<mapsto> (case m_midiTickPlayed self k of Some c \<Rightarrow> c | None \<Rightarrow> next_channel w))"
      by blast
    from e have x: "x = Inr (case m_midiTickPlayed self k of Some c \<Rightarrow> c | None \<Rightarrow> next_channel w)" by blast
    from e have tb1: "table_bound_to this w1" by blast
    from e have s1: "sent (rpc w1) = sent (rpc w) @ (if m_midiTickPlayed self k = None then [bind_request (m_target self) k] else [])" by blast
    from m1 Cons.prems(3) have r1: "m_midiTickPlayed self1 K = Some c" by (cases "k = K") auto
    from Cons.prems(4) Access s x obtain rs1 where
      run1: "run this acts w1 = (Inr rs1, w')" and rs: "rs = (k, case m_midiTickPlayed self k of Some c \<Rightarrow> c | None \<Rightarrow> next_channel w) # rs1"
      by (auto split: prod.splits sum.splits)
    from Cons.IH [OF o1 tb1 r1 run1] t1
    have ih: "bind_requests (m_target self) K (sent (rpc w')) = bind_requests (m_target self) K (sent (rpc w1))"
      "\<forall>c'. (K, c') \<in> set rs1 \<longrightarrow> c' = c"
      "\<exists>self'. objs w' this = Some self' \<and> m_midiTickPlayed self' K = Some c" by auto
    have "bind_requests (m_target self) K (sent (rpc w1)) = bind_requests (m_target self) K (sent (rpc w))"
      using s1 Cons.prems(3) by (cases "k = K") auto
    with ih(1) have 1: "bind_requests (m_target self) K (sent (rpc w')) = bind_requests (m_target self) K (sent (rpc w))"
      by simp
    from ih(2) rs Cons.prems(3) have 2: "\<forall>c'. (K, c') \<in> set rs \<longrightarrow> c' = c" by auto
    from 1 2 ih(3) show ?thesis by blast
  next
    case (Inbound msg)
    from Cons.prems(4) Inbound obtain u w1 where
      s: "listener this msg w = (Inr u, w1)" and run1: "run this acts w1 = (Inr rs, w')"
      by (auto split: prod.splits sum.splits)
    note e = inbound_effect [OF Cons.prems(1) Cons.prems(2) s]
    from e obtain self1 where o1: "objs w1 this = Some self1" and t1: "m_target self1 = m_target self"
      and m1: "\<forall>K. m_midiTickPlayed self1 K =
                (if tick_event_for (m_target self) K msg \<and> m_midiTickPlayed self K = None
                 then Some (next_channel w) else m_midiTickPlayed self K)"
      by blast
    from e have tb1: "table_bound_to this w1" and s1: "sent (rpc w1) = sent (rpc w)" by blast+
    from m1 Cons.prems(3) have r1: "m_midiTickPlayed self1 K = Some c" by simp
    from Cons.IH [OF o1 tb1 r1 run1] t1 s1 show ?thesis by simp
  qed
qed

lemma run_unregistered:
  assumes "objs w this = Some self" and "table_bound_to this w"
    and "m_midiTickPlayed self K = None"
    and "run this acts w = (Inr rs, w')"
  shows "bind_requests (m_target self) K (sent (rpc w')) =
           bind_requests (m_target self) K (sent (rpc w)) + (if local_first (m_target self) K acts then 1 else 0)
       \<and> (\<forall>c c'. (K, c) \<in> set rs \<longrightarrow> (K, c') \<in> set rs \<longrightarrow> c = c')"
  using assms
proof (induction acts arbitrary: w self rs)
  case Nil
  then show ?case by simp
next
  case (Cons a acts)
  show ?case
  proof (cases a)
    case (Access k)
    obtain x w1 where s: "midiTickPlayed this k w = (x, w1)" by (cases "midiTickPlayed this k w")
    note e = access_effect [OF Cons.prems(1) Cons.prems(2) s]
    from e obtain self1 where o1: "objs w1 this = Some self1" and t1: "m_target self1 = m_target self"
      and m1: "m_midiTickPlayed self1 = (m_midiTickPlayed self)(k \<mapsto> (case m_midiTickPlayed self k of Some c \<Rightarrow> c | None \<Rightarrow> next_channel w))"
      by blast
    from e have x: "x = Inr (case m_midiTickPlayed self k of Some c \<Rightarrow> c | None \<Rightarrow> next_channel w)" by blast
    from e have tb1: "table_bound_to this w1" by blast
    from e have s1: "sent (rpc w1) = sent (rpc w) @ (if m_midiTickPlayed self k = None then [bind_request (m_target self) k] else [])" by blast
    from Cons.prems(4) Access s x obtain rs1 where
      run1: "run this acts w1 = (Inr rs1, w')" and rs: "rs = (k, case m_midiTickPlayed self k of Some c \<Rightarrow> c | None \<Rightarrow> next_channel w) # rs1"
      by (auto split: prod.splits sum.splits)
    show ?thesis
    proof (cases "k = K")
      case True
      with m1 Cons.prems(3) have r1: "m_midiTickPlayed self1 K = Some (next_channel w)" by simp
      from run_registered [OF o1 tb1 r1 run1] t1
      have ih: "bind_requests (m_target self) K (sent (rpc w')) = bind_requests (m_target self) K (sent (rpc w1))"
        "\<forall>c'. (K, c') \<in> set rs1 \<longrightarrow> c' = next_channel w" by auto
      from s1 True Cons.prems(3)
      have "bind_requests (m_target self) K (sent (rpc w1)) = bind_requests (m_target self) K (sent (rpc w)) + 1"
        by simp
      with ih rs True Access Cons.prems(3) show ?thesis by auto
    next
      case False
      with m1 Cons.prems(3) have r1: "m_midiTickPlayed self1 K = None" by simp
      from Cons.IH [OF o1 tb1 r1 run1] t1
      have ih: "bind_requests (m_target self) K (sent (rpc w')) =
           bind_requests (m_target self) K (sent (rpc w1)) + (if local_first (m_target self) K acts then 1 else 0)"
        "\<forall>c c'. (K, c) \<in> set rs1 \<longrightarrow> (K, c') \<in> set rs1 \<longrightarrow> c = c'" by auto
      from s1 False
      have "bind_requests (m_target self) K (sent (rpc w1)) = bind_requests (m_target self) K (sent (rpc w))"
        by simp
      with ih rs False Access show ?thesis by auto
    qed
  next
    case (Inbound msg)
    from Cons.prems(4) Inbound obtain u w1 where
      s: "listener this msg w = (Inr u, w1)" and run1: "run this acts w1 = (Inr rs, w')"
      by (auto split: prod.splits sum.splits)
    note e = inbound_effect [OF Cons.prems(1) Cons.prems(2) s]
    from e obtain self1 where o1: "objs w1 this = Some self1" and t1: "m_target self1 = m_target self"
      and m1: "\<forall>K. m_midiTickPlayed self1 K =
                (if tick_event_for (m_target self) K msg \<and> m_midiTickPlayed self K = None
                 then Some (next_channel w) else m_midiTickPlayed self K)"
      by blast
    from e have tb1: "table_bound_to this w1" and s1: "sent (rpc w1) = sent (rpc w)" by blast+
    show ?thesis
    proof (cases "tick_event_for (m_target self) K msg")
      case True
      with m1 Cons.prems(3) have r1: "m_midiTickPlayed self1 K = Some (next_channel w)" by simp
      from run_registered [OF o1 tb1 r1 run1] t1 s1 True Inbound show ?thesis by auto
    next
      case False
      with m1 Cons.prems(3) have r1: "m_midiTickPlayed self1 K = None" by simp
      from Cons.IH [OF o1 tb1 r1 run1] t1 s1 False Inbound show ?thesis by simp
    qed
  qed
qed

subsection \<open>Delivery to the listeners of other proxies\<close>

lemma handler_keeps_calls_invoked:
  "calls (snd (statusChanged_handler t a w)) = calls w \<and> invoked (snd (statusChanged_handler t a w)) = invoked w"
  "calls (snd (positionChanged_handler t a w)) = calls w \<and> invoked (snd (positionChanged_handler t a w)) = invoked w"
  "calls (snd (midiTickPlayed_handler t a w)) = calls w \<and> invoked (snd (midiTickPlayed_handler t a w)) = invoked w"
  by (auto simp: statusChanged_handler_def positionChanged_handler_def midiTickPlayed_handler_def
      new_Channel_def Channel_send_def Let_def split: option.splits sum.splits)

lemma invoke_calls_invoked:
  "calls (snd (invoke c a w)) = calls w \<and> invoked (snd (invoke c a w)) = invoked w @ [c]"
  by (cases "handler c") (simp_all add: invoke_def Let_def handler_keeps_calls_invoked)

text \<open>The handler table is built by the first listener call that passes the filter, and never again.\<close>

lemma table_built_once:
  "calls w \<noteq> [] \<Longrightarrow> calls (snd (listener this msg w)) = calls w"
proof -
  assume ne: "calls w \<noteq> []"
  then have b: "bind_calls this w = w" by (rule bind_calls_nonempty)
  show ?thesis
  proof (cases "objs w this")
    case None
    then show ?thesis by (simp add: listener_def)
  next
    case (Some self)
    show ?thesis
    proof (cases "msg_target msg = m_target self")
      case False
      with Some show ?thesis by (simp add: listener_def)
    next
      case True
      show ?thesis
      proof (cases "map_of (calls w) (msg_method msg)")
        case None
        with Some True b show ?thesis by (simp add: listener_matching LOGE_def)
      next
        case (Some call)
        with \<open>objs w this = Some self\<close> True b show ?thesis
          by (simp add: listener_matching invoke_calls_invoked)
      qed
    qed
  qed
qed

lemma table_built_lazily:
  "objs w this = Some self \<Longrightarrow> msg_target msg = m_target self \<Longrightarrow> calls w = [] \<Longrightarrow>
   calls (snd (listener this msg w)) = calls_of this"
proof -
  assume o: "objs w this = Some self" and t: "msg_target msg = m_target self" and e: "calls w = []"
  from e have b: "bind_calls this w = w\<lparr>calls := calls_of this\<rparr>" by (rule bind_calls_empty)
  show ?thesis
  proof (cases "map_of (calls_of this) (msg_method msg)")
    case None
    with o t b show ?thesis by (simp add: listener_matching LOGE_def)
  next
    case (Some call)
    with o t b show ?thesis by (simp add: listener_matching invoke_calls_invoked)
  qed
qed

text \<open>
  While only the listener of one proxy receives messages, the handler table stays unbuilt or
  bound to that proxy, whatever the messages are and whether or not a handler faults.
\<close>

lemma listener_keeps_table_bound:
  assumes tb: "table_bound_to this w"
  shows "table_bound_to this (snd (listener this msg w))"
proof (cases "objs w this")
  case None
  with tb show ?thesis by (simp add: listener_def)
next
  case (Some self)
  show ?thesis
  proof (cases "msg_target msg = m_target self")
    case False
    with Some tb show ?thesis by (simp add: listener_def)
  next
    case True
    note b = bind_calls_bound [OF tb]
    have "calls (snd (listener this msg w)) = calls_of this"
    proof (cases "map_of (calls_of this) (msg_method msg)")
      case None
      with Some True b show ?thesis by (simp add: listener_matching LOGE_def)
    next
      case (Some call)
      with \<open>objs w this = Some self\<close> True b show ?thesis
        by (simp add: listener_matching invoke_calls_invoked)
    qed
    then show ?thesis by (rule table_bound_after)
  qed
qed

lemma access_keeps_table_bound:
  "table_bound_to this w \<Longrightarrow> table_bound_to this (snd (midiTickPlayed this k w))"
  by (auto simp: table_bound_to_def midiTickPlayed_def send_def new_Channel_def Let_def
      split: option.splits)

lemma run_keeps_table_bound:
  "table_bound_to this w \<Longrightarrow> table_bound_to this (snd (run this acts w))"
proof (induction acts arbitrary: w)
  case Nil
  then show ?case by simp
next
  case (Cons a acts)
  show ?case
  proof (cases a)
    case (Access k)
    obtain x w1 where s: "midiTickPlayed this k w = (x, w1)" by (cases "midiTickPlayed this k w")
    with access_keeps_table_bound [OF Cons.prems, of k] have t1: "table_bound_to this w1" by simp
    show ?thesis
    proof (cases x)
      case (Inl e)
      with Access s t1 show ?thesis by simp
    next
      case (Inr c)
      with Access s have "snd (run this (a # acts) w) = snd (run this acts w1)"
        by (simp split: prod.splits sum.splits)
      with Cons.IH [OF t1] show ?thesis by simp
    qed
  next
    case (Inbound msg)
    obtain x w1 where s: "listener this msg w = (x, w1)" by (cases "listener this msg w")
    with listener_keeps_table_bound [OF Cons.prems, of msg] have t1: "table_bound_to this w1" by simp
    show ?thesis
    proof (cases x)
      case (Inl e)
      with Inbound s t1 show ?thesis by simp
    next
      case (Inr c)
      with Inbound s have "snd (run this (a # acts) w) = snd (run this acts w1)" by simp
      with Cons.IH [OF t1] show ?thesis by simp
    qed
  qed
qed

lemma listener_other:
  assumes "q \<noteq> p" and "\<forall>c \<in> snd ` set (calls w). captured c \<noteq> p"
  shows "(\<forall>c \<in> snd ` set (calls (snd (listener q msg w))). captured c \<noteq> p)
       \<and> runs_on p (snd (listener q msg w)) = runs_on p w"
proof (cases "objs w q")
  case None
  with assms show ?thesis by (simp add: listener_def)
next
  case (Some self)
  show ?thesis
  proof (cases "msg_target msg = m_target self")
    case False
    with Some assms show ?thesis by (simp add: listener_def)
  next
    case True
    let ?w1 = "bind_calls q w"
    have c1: "\<forall>c \<in> snd ` set (calls ?w1). captured c \<noteq> p"
    proof (cases "calls w = []")
      case True
      then have "calls ?w1 = calls_of q" by (simp add: bind_calls_empty)
      with assms(1) show ?thesis by (auto simp: calls_of_def)
    next
      case False
      then have "?w1 = w" by (rule bind_calls_nonempty)
      with assms(2) show ?thesis by simp
    qed
    have i1: "invoked ?w1 = invoked w"
      by (cases "calls w = []") (simp_all add: bind_calls_empty bind_calls_nonempty)
    show ?thesis
    proof (cases "map_of (calls ?w1) (msg_method msg)")
      case None
      with Some True c1 i1 show ?thesis
        by (simp add: listener_matching LOGE_def runs_on_def)
    next
      case (Some call)
      then have "call \<in> snd ` set (calls ?w1)"
        by (metis map_of_SomeD image_eqI snd_conv)
      with c1 have "captured call \<noteq> p" by blast
      with \<open>objs w q = Some self\<close> True Some c1 i1 show ?thesis
        by (simp add: listener_matching invoke_calls_invoked runs_on_def)
    qed
  qed
qed

lemma deliver_to_others:
  assumes "\<forall>l \<in> set ls. snd l \<noteq> p" and "\<forall>c \<in> snd ` set (calls w). captured c \<noteq> p"
  shows "runs_on p (snd (deliver_to ls msg w)) = runs_on p w"
  using assms
proof (induction ls arbitrary: w)
  case Nil
  then show ?case by simp
next
  case (Cons l ls)
  from Cons.prems have q: "snd l \<noteq> p" by simp
  note st = listener_other [OF q Cons.prems(2), of msg]
  obtain r w1 where L: "listener (snd l) msg w = (r, w1)" by (cases "listener (snd l) msg w")
  with st have c1: "\<forall>c \<in> snd ` set (calls w1). captured c \<noteq> p" and r1: "runs_on p w1 = runs_on p w"
    by simp_all
  show ?case
  proof (cases r)
    case (Inl e)
    with L r1 show ?thesis by simp
  next
    case (Inr u)
    from Cons.prems have "\<forall>l \<in> set ls. snd l \<noteq> p" by simp
    from Cons.IH [OF this c1] L Inr r1 show ?thesis by simp
  qed
qed

lemma destroy_effect:
  assumes "objs w this = Some self"
  shows "destroy this w =
    (Inr (), w\<lparr>objs := (objs w)(this := None),
               rpc := (rpc w)\<lparr>listeners := filter (\<lambda>l. fst l \<noteq> m_listenID self) (listeners (rpc w))\<rparr>\<rparr>)"
  using assms by (simp add: destroy_def unlisten_def Let_def)

subsection \<open>Channel histories only grow\<close>

lemma handler_channels_grow:
  "next_channel w \<le> next_channel (snd (midiTickPlayed_handler q a w))
   \<and> (\<forall>c < next_channel w. \<exists>ts. channels (snd (midiTickPlayed_handler q a w)) c = channels w c @ ts)"
  by (auto simp: midiTickPlayed_handler_def new_Channel_def Channel_send_def Let_def
      split: option.splits sum.splits)

lemma handler_channels_same:
  "next_channel (snd (statusChanged_handler q a w)) = next_channel w
   \<and> channels (snd (statusChanged_handler q a w)) = channels w"
  "next_channel (snd (positionChanged_handler q a w)) = next_channel w
   \<and> channels (snd (positionChanged_handler q a w)) = channels w"
  by (auto simp: statusChanged_handler_def positionChanged_handler_def split: option.splits sum.splits)

lemma invoke_channels_grow:
  "next_channel w \<le> next_channel (snd (invoke call a w))
   \<and> (\<forall>c < next_channel w. \<exists>ts. channels (snd (invoke call a w)) c = channels w c @ ts)"
proof (cases "handler call")
  case StatusChangedHandler
  then show ?thesis by (simp add: invoke_def Let_def handler_channels_same)
next
  case PositionChangedHandler
  then show ?thesis by (simp add: invoke_def Let_def handler_channels_same)
next
  case MidiTickPlayedHandler
  with handler_channels_grow [of "w\<lparr>invoked := invoked w @ [call]\<rparr>" "captured call" a]
  show ?thesis by (simp add: invoke_def Let_def)
qed

lemma bind_calls_channels:
  "next_channel (bind_calls q w) = next_channel w \<and> channels (bind_calls q w) = channels w"
  by (simp add: bind_calls_def)

lemma listener_channels_grow:
  "next_channel w \<le> next_channel (snd (listener q msg w))
   \<and> (\<forall>c < next_channel w. \<exists>ts. channels (snd (listener q msg w)) c = channels w c @ ts)"
proof (cases "objs w q")
  case None
  then show ?thesis by (simp add: listener_def)
next
  case (Some self)
  show ?thesis
  proof (cases "msg_target msg = m_target self")
    case False
    with Some show ?thesis by (simp add: listener_def)
  next
    case True
    show ?thesis
    proof (cases "map_of (calls (bind_calls q w)) (msg_method msg)")
      case None
      with Some True show ?thesis
        by (simp add: listener_matching LOGE_def bind_calls_channels)
    next
      case (Some call)
      with \<open>objs w q = Some self\<close> True
        invoke_channels_grow [of "bind_calls q w" call "msg_args msg"]
      show ?thesis by (simp add: listener_matching bind_calls_channels)
    qed
  qed
qed

lemma access_channels_grow:
  "next_channel w \<le> next_channel (snd (midiTickPlayed q k w))
   \<and> (\<forall>c < next_channel w. \<exists>ts. channels (snd (midiTickPlayed q k w)) c = channels w c @ ts)"
  by (auto simp: midiTickPlayed_def send_def new_Channel_def Let_def split: option.splits)

lemma grow_trans:
  assumes "next_channel w \<le> next_channel w1"
    and "\<forall>c < next_channel w. \<exists>ts. channels w1 c = channels w c @ ts"
    and "next_channel w1 \<le> next_channel w2
         \<and> (\<forall>c < next_channel w1. \<exists>ts. channels w2 c = channels w1 c @ ts)"
  shows "next_channel w \<le> next_channel w2
         \<and> (\<forall>c < next_channel w. \<exists>ts. channels w2 c = channels w c @ ts)"
proof (intro conjI allI impI)
  from assms show "next_channel w \<le> next_channel w2" by simp
next
  fix c assume c: "c < next_channel w"
  with assms(2) obtain ts where 1: "channels w1 c = channels w c @ ts" by blast
  from c assms(1) have "c < next_channel w1" by simp
  with assms(3) obtain ts' where 2: "channels w2 c = channels w1 c @ ts'" by blast
  from 1 2 have "channels w2 c = channels w c @ (ts @ ts')" by simp
  then show "\<exists>ts. channels w2 c = channels w c @ ts" by blast
qed

lemma run_channels_grow:
  "next_channel w \<le> next_channel (snd (run q acts w))
   \<and> (\<forall>c < next_channel w. \<exists>ts. channels (snd (run q acts w)) c = channels w c @ ts)"
proof (induction acts arbitrary: w)
  case Nil
  show ?case by simp
next
  case (Cons a acts)
  show ?case
  proof (cases a)
    case (Access k)
    obtain x w1 where s: "midiTickPlayed q k w = (x, w1)" by (cases "midiTickPlayed q k w")
    from access_channels_grow [of w q k] s
    have g1: "next_channel w \<le> next_channel w1" "\<forall>c < next_channel w. \<exists>ts. channels w1 c = channels w c @ ts"
      by simp_all
    show ?thesis
    proof (cases x)
      case (Inl e)
      with Access s g1 show ?thesis by simp
    next
      case (Inr c)
      have e: "snd (run q (a # acts) w) = snd (run q acts w1)"
        using Access s Inr by (simp split: prod.splits sum.splits)
      show ?thesis unfolding e by (rule grow_trans [OF g1 Cons.IH [of w1]])
    qed
  next
    case (Inbound msg)
    obtain x w1 where s: "listener q msg w = (x, w1)" by (cases "listener q msg w")
    from listener_channels_grow [of w q msg] s
    have g1: "next_channel w \<le> next_channel w1" "\<forall>c < next_channel w. \<exists>ts. channels w1 c = channels w c @ ts"
      by simp_all
    show ?thesis
    proof (cases x)
      case (Inl e)
      with Inbound s g1 show ?thesis by simp
    next
      case (Inr c)
      have e: "snd (run q (a # acts) w) = snd (run q acts w1)"
        using Inbound s Inr by simp
      show ?thesis unfolding e by (rule grow_trans [OF g1 Cons.IH [of w1]])
    qed
  qed
qed

subsection \<open>The outbound operations\<close>

lemma setMIDITrack_direct:
  "objs w this = Some self \<Longrightarrow> \<not> isSerialized w \<Longrightarrow>
   setMIDITrack this i s w =
     (Inr (), with_sent w (Msg (m_target self) ''setMIDITrack'' [ArgTrackId i, ArgMidiStream s]))"
  by (simp add: setMIDITrack_def send_def make_arg2_def with_sent_def)

lemma setAudioTrack_direct:
  "objs w this = Some self \<Longrightarrow> \<not> isSerialized w \<Longrightarrow>
   setAudioTrack this i s w =
     (Inr (), with_sent w (Msg (m_target self) ''setAudioTrack'' [ArgTrackId i, ArgAudioStream s]))"
  by (simp add: setAudioTrack_def send_def make_arg2_def with_sent_def)

lemma instantlyPlayMidi_direct:
  "objs w this = Some self \<Longrightarrow> \<not> isSerialized w \<Longrightarrow>
   instantlyPlayMidi this d w =
     (Inr None, with_sent w (Msg (m_target self) ''instantlyPlayMidi'' [ArgMidiData d]))"
  by (simp add: instantlyPlayMidi_def send_def make_arg1_def with_sent_def)

lemma guarded_serialized:
  assumes "objs w this = Some self" and "isSerialized w"
  shows "setMIDITrack this i ms w = (Inl NotImplemented, w)"
    and "setAudioTrack this i au w = (Inl NotImplemented, w)"
    and "instantlyPlayMidi this d w = (Inl NotImplemented, w)"
  using assms
  by (simp_all add: setMIDITrack_def setAudioTrack_def instantlyPlayMidi_def NOT_IMPLEMENTED_def)

lemma unguarded_operations:
  assumes "objs w this = Some self"
  shows "initMIDITrack this i w = (Inr (), with_sent w (Msg (m_target self) ''initMIDITrack'' [ArgTrackId i]))"
    and "initAudioTrack this i w = (Inr (), with_sent w (Msg (m_target self) ''initAudioTrack'' [ArgTrackId i]))"
    and "play this w = (Inr (), with_sent w (Msg (m_target self) ''play'' []))"
    and "pause this w = (Inr (), with_sent w (Msg (m_target self) ''pause'' []))"
    and "stop this w = (Inr (), with_sent w (Msg (m_target self) ''stop'' []))"
    and "seek this pos w = (Inr (), with_sent w (Msg (m_target self) ''seek'' [ArgUInt64 pos]))"
    and "rewind this w = (Inr (), with_sent w (Msg (m_target self) ''rewind'' []))"
    and "setLoop this fromMs toMs w = (Inr (), with_sent w (Msg (m_target self) ''setLoop'' [ArgUInt64 fromMs, ArgUInt64 toMs]))"
    and "unsetLoop this w = (Inr (), with_sent w (Msg (m_target self) ''unsetLoop'' []))"
  using assms
  by (simp_all add: initMIDITrack_def initAudioTrack_def play_def pause_def stop_def seek_def
      rewind_def setLoop_def unsetLoop_def send_def Msg2_def make_arg1_def make_arg2_def with_sent_def)

lemma sent_with_sent: "sent (rpc (with_sent w m)) = sent (rpc w) @ [m]"
  by (simp add: with_sent_def)

subsection \<open>Uses of a proxy, whatever the handler table holds\<close>

lemma handlers_keep_proxy:
  assumes "objs w this = Some self"
  shows "keeps_proxy this self w (snd (statusChanged_handler p a w))"
    and "keeps_proxy this self w (snd (positionChanged_handler p a w))"
    and "keeps_proxy this self w (snd (midiTickPlayed_handler p a w))"
  using assms
  by (auto simp: keeps_proxy_def statusChanged_handler_def positionChanged_handler_def
      midiTickPlayed_handler_def new_Channel_def Channel_send_def Let_def
      split: option.splits sum.splits)


lemma invoke_keeps_proxy:
  assumes "objs w this = Some self"
  shows "keeps_proxy this self w (snd (invoke call a w))"
proof -
  let ?w1 = "w\<lparr>invoked := invoked w @ [call]\<rparr>"
  from assms have o1: "objs ?w1 this = Some self" by simp
  have k: "keeps_proxy this self ?w1 w' \<Longrightarrow> keeps_proxy this self w w'" for w'
    by (simp add: keeps_proxy_def)
  show ?thesis
    by (cases "handler call")
      (simp_all add: invoke_def Let_def k handlers_keep_proxy [OF o1])
qed

lemma listener_keeps_proxy:
  assumes o: "objs w this = Some self"
  shows "keeps_proxy this self w (snd (listener q msg w))"
proof -
  have same: "keeps_proxy this self w w" using o by (simp add: keeps_proxy_def)
  let ?w1 = "bind_calls q w"
  have o1: "objs ?w1 this = Some self" using o by (simp add: bind_calls_def)
  have k: "keeps_proxy this self ?w1 w' \<Longrightarrow> keeps_proxy this self w w'" for w'
    by (simp add: keeps_proxy_def bind_calls_def)
  show ?thesis
  proof (cases "objs w q")
    case None
    with same show ?thesis by (simp add: listener_def)
  next
    case (Some qself)
    show ?thesis
    proof (cases "msg_target msg = m_target qself")
      case False
      with Some same show ?thesis by (simp add: listener_def)
    next
      case True
      show ?thesis
      proof (cases "map_of (calls ?w1) (msg_method msg)")
        case None
        with Some True o show ?thesis
          by (simp add: listener_matching LOGE_def keeps_proxy_def bind_calls_def)
      next
        case (Some call)
        with \<open>objs w q = Some qself\<close> True k [OF invoke_keeps_proxy [OF o1, of call "msg_args msg"]]
        show ?thesis by (simp add: listener_matching)
      qed
    qed
  qed
qed

lemma access_effect_any:
  assumes o: "objs w this = Some self" and r: "midiTickPlayed this k w = (x, w')"
  shows "x = Inr (case m_midiTickPlayed self k of Some c \<Rightarrow> c | None \<Rightarrow> next_channel w)
    \<and> (\<exists>self'. objs w' this = Some self' \<and> m_target self' = m_target self
          \<and> m_midiTickPlayed self' = (m_midiTickPlayed self)(k \<mapsto> (case m_midiTickPlayed self k of Some c \<Rightarrow> c | None \<Rightarrow> next_channel w)))
    \<and> sent (rpc w') = sent (rpc w) @ (if m_midiTickPlayed self k = None then [bind_request (m_target self) k] else [])"
proof (cases "m_midiTickPlayed self k")
  case None
  with o r show ?thesis
    by (auto simp: midiTickPlayed_miss bind_request_def)
next
  case (Some c)
  with o r show ?thesis
    by (auto simp: midiTickPlayed_hit bind_request_def fun_upd_idem)
qed

lemma run_registered_any:
  assumes "objs w this = Some self"
    and "m_midiTickPlayed self K = Some c"
    and "run this acts w = (Inr rs, w')"
  shows "bind_requests (m_target self) K (sent (rpc w')) = bind_requests (m_target self) K (sent (rpc w))
       \<and> (\<forall>c'. (K, c') \<in> set rs \<longrightarrow> c' = c)
       \<and> (\<exists>self'. objs w' this = Some self' \<and> m_midiTickPlayed self' K = Some c)"
  using assms
proof (induction acts arbitrary: w self rs)
  case Nil
  then show ?case by simp
next
  case (Cons a acts)
  show ?case
  proof (cases a)
    case (Access k)
    obtain x w1 where s: "midiTickPlayed this k w = (x, w1)" by (cases "midiTickPlayed this k w")
    note e = access_effect_any [OF Cons.prems(1) s]
    from e obtain self1 where o1: "objs w1 this = Some self1" and t1: "m_target self1 = m_target self"
      and m1: "m_midiTickPlayed self1 = (m_midiTickPlayed self)(k \<mapsto> (case m_midiTickPlayed self k of Some c \<Rightarrow> c | None \<Rightarrow> next_channel w))"
      by blast
    from e have x: "x = Inr (case m_midiTickPlayed self k of Some c \<Rightarrow> c | None \<Rightarrow> next_channel w)" by blast
    from e have s1: "sent (rpc w1) = sent (rpc w) @ (if m_midiTickPlayed self k = None then [bind_request (m_target self) k] else [])" by blast
    from m1 Cons.prems(2) have r1: "m_midiTickPlayed self1 K = Some c" by (cases "k = K") auto
    from Cons.prems(3) Access s x obtain rs1 where
      run1: "run this acts w1 = (Inr rs1, w')" and rs: "rs = (k, case m_midiTickPlayed self k of Some c \<Rightarrow> c | None \<Rightarrow> next_channel w) # rs1"
      by (auto split: prod.splits sum.splits)
    from Cons.IH [OF o1 r1 run1] t1
    have ih: "bind_requests (m_target self) K (sent (rpc w')) = bind_requests (m_target self) K (sent (rpc w1))"
      "\<forall>c'. (K, c') \<in> set rs1 \<longrightarrow> c' = c"
      "\<exists>self'. objs w' this = Some self' \<and> m_midiTickPlayed self' K = Some c" by auto
    have "bind_requests (m_target self) K (sent (rpc w1)) = bind_requests (m_target self) K (sent (rpc w))"
      using s1 Cons.prems(2) by (cases "k = K") auto
    with ih(1) have 1: "bind_requests (m_target self) K (sent (rpc w')) = bind_requests (m_target self) K (sent (rpc w))"
      by simp
    from ih(2) rs Cons.prems(2) have 2: "\<forall>c'. (K, c') \<in> set rs \<longrightarrow> c' = c" by auto
    from 1 2 ih(3) show ?thesis by blast
  next
    case (Inbound msg)
    from Cons.prems(3) Inbound obtain u w1 where
      s: "listener this msg w = (Inr u, w1)" and run1: "run this acts w1 = (Inr rs, w')"
      by (auto split: prod.splits sum.splits)
    from listener_keeps_proxy [OF Cons.prems(1), of this msg] s
    have "keeps_proxy this self w w1" by simp
    then obtain self1 where o1: "objs w1 this = Some self1" and t1: "m_target self1 = m_target self"
      and m1: "\<forall>K c. m_midiTickPlayed self K = Some c \<longrightarrow> m_midiTickPlayed self1 K = Some c"
      and s1: "sent (rpc w1) = sent (rpc w)"
      unfolding keeps_proxy_def by blast
    from m1 Cons.prems(2) have r1: "m_midiTickPlayed self1 K = Some c" by simp
    from Cons.IH [OF o1 r1 run1] t1 s1 show ?thesis by simp
  qed
qed

lemma run_at_most_one_bind:
  assumes "objs w this = Some self"
    and "run this acts w = (Inr rs, w')"
  shows "bind_requests (m_target self) K (sent (rpc w')) \<le> bind_requests (m_target self) K (sent (rpc w)) + 1
       \<and> (m_midiTickPlayed self K \<noteq> None \<or> Access K \<notin> set acts \<longrightarrow>
            bind_requests (m_target self) K (sent (rpc w')) = bind_requests (m_target self) K (sent (rpc w)))
       \<and> (\<forall>c c'. (K, c) \<in> set rs \<longrightarrow> (K, c') \<in> set rs \<longrightarrow> c = c')"
  using assms
proof (induction acts arbitrary: w self rs)
  case Nil
  then show ?case by simp
next
  case (Cons a acts)
  show ?case
  proof (cases "m_midiTickPlayed self K")
    case (Some c)
    from run_registered_any [OF Cons.prems(1) Some Cons.prems(2)] Some show ?thesis by auto
  next
    case None
    show ?thesis
    proof (cases a)
      case (Access k)
      obtain x w1 where s: "midiTickPlayed this k w = (x, w1)" by (cases "midiTickPlayed this k w")
      note e = access_effect_any [OF Cons.prems(1) s]
      from e obtain self1 where o1: "objs w1 this = Some self1" and t1: "m_target self1 = m_target self"
        and m1: "m_midiTickPlayed self1 = (m_midiTickPlayed self)(k \<mapsto> (case m_midiTickPlayed self k of Some c \<Rightarrow> c | None \<Rightarrow> next_channel w))"
        by blast
      from e have x: "x = Inr (case m_midiTickPlayed self k of Some c \<Rightarrow> c | None \<Rightarrow> next_channel w)" by blast
      from e have s1: "sent (rpc w1) = sent (rpc w) @ (if m_midiTickPlayed self k = None then [bind_request (m_target self) k] else [])" by blast
      from Cons.prems(2) Access s x obtain rs1 where
        run1: "run this acts w1 = (Inr rs1, w')" and rs: "rs = (k, case m_midiTickPlayed self k of Some c \<Rightarrow> c | None \<Rightarrow> next_channel w) # rs1"
        by (auto split: prod.splits sum.splits)
      show ?thesis
      proof (cases "k = K")
        case True
        with m1 None have r1: "m_midiTickPlayed self1 K = Some (next_channel w)" by simp
        from run_registered_any [OF o1 r1 run1] t1
        have ih: "bind_requests (m_target self) K (sent (rpc w')) = bind_requests (m_target self) K (sent (rpc w1))"
          "\<forall>c'. (K, c') \<in> set rs1 \<longrightarrow> c' = next_channel w" by auto
        from s1 True None
        have "bind_requests (m_target self) K (sent (rpc w1)) = bind_requests (m_target self) K (sent (rpc w)) + 1"
          by simp
        with ih rs True Access None show ?thesis by auto
      next
        case False
        with m1 None have r1: "m_midiTickPlayed self1 K = None" by simp
        from Cons.IH [OF o1 run1] t1 r1
        have ih: "bind_requests (m_target self) K (sent (rpc w')) \<le> bind_requests (m_target self) K (sent (rpc w1)) + 1"
          "Access K \<notin> set acts \<longrightarrow>
            bind_requests (m_target self) K (sent (rpc w')) = bind_requests (m_target self) K (sent (rpc w1))"
          "\<forall>c c'. (K, c) \<in> set rs1 \<longrightarrow> (K, c') \<in> set rs1 \<longrightarrow> c = c'" by auto
        from s1 False
        have "bind_requests (m_target self) K (sent (rpc w1)) = bind_requests (m_target self) K (sent (rpc w))"
          by simp
        with ih rs False Access None show ?thesis by auto
      qed
    next
      case (Inbound msg)
      from Cons.prems(2) Inbound obtain u w1 where
        s: "listener this msg w = (Inr u, w1)" and run1: "run this acts w1 = (Inr rs, w')"
        by (auto split: prod.splits sum.splits)
      from listener_keeps_proxy [OF Cons.prems(1), of this msg] s
      have "keeps_proxy this self w w1" by simp
      then obtain self1 where o1: "objs w1 this = Some self1" and t1: "m_target self1 = m_target self"
        and s1: "sent (rpc w1) = sent (rpc w)"
        unfolding keeps_proxy_def by blast
      from Cons.IH [OF o1 run1, unfolded t1 s1]
      have ih: "bind_requests (m_target self) K (sent (rpc w')) \<le> bind_requests (m_target self) K (sent (rpc w)) + 1"
        "Access K \<notin> set acts \<longrightarrow>
            bind_requests (m_target self) K (sent (rpc w')) = bind_requests (m_target self) K (sent (rpc w))"
        "\<forall>c c'. (K, c) \<in> set rs \<longrightarrow> (K, c') \<in> set rs \<longrightarrow> c = c'" by auto
      with Inbound None show ?thesis by auto
    qed
  qed
qed

subsection \<open>Two proxies after a first delivery\<close>

lemma after_first_delivery_objs:
  "objs after_first_delivery =
     [0 \<mapsto> new_proxy\<lparr>m_listenID := 0, m_status := Playing, m_statusChanged := [Playing, Playing]\<rparr>,
      1 \<mapsto> new_proxy\<lparr>m_listenID := 1\<rparr>]"
  by (auto simp add: after_first_delivery_def two_proxies_listening_def two_proxy_world_def new_proxy_def
      setup_proxy_def listen_def deliver_def status_event_def listener_def bind_calls_def
      bindMethod_def invoke_def statusChanged_handler_def arg_Status_def Let_def fun_eq_iff)

lemma after_first_delivery_rest:
  "rpc after_first_delivery = \<lparr>serialized = False, listeners = [(0, 0), (1, 1)], next_listen = 2, sent = []\<rparr>"
  "calls after_first_delivery = calls_of 0"
  "channels after_first_delivery = (\<lambda>c. [])"
  "next_channel after_first_delivery = 0"
  "logged after_first_delivery = []"
  "invoked after_first_delivery = [Call StatusChangedHandler 0, Call StatusChangedHandler 0]"
  by (simp_all add: after_first_delivery_def two_proxies_listening_def two_proxy_world_def new_proxy_def
      setup_proxy_def listen_def deliver_def status_event_def listener_def bind_calls_def
      bindMethod_def calls_of_def invoke_def statusChanged_handler_def arg_Status_def Let_def)

lemma after_first_delivery_eq:
  "after_first_delivery =
     \<lparr>objs = [0 \<mapsto> new_proxy\<lparr>m_listenID := 0, m_status := Playing, m_statusChanged := [Playing, Playing]\<rparr>,
              1 \<mapsto> new_proxy\<lparr>m_listenID := 1\<rparr>],
      rpc = \<lparr>serialized = False, listeners = [(0, 0), (1, 1)], next_listen = 2, sent = []\<rparr>,
      calls = calls_of 0, channels = (\<lambda>c. []), next_channel = 0, logged = [],
      invoked = [Call StatusChangedHandler 0, Call StatusChangedHandler 0]\<rparr>"
  by (rule world.equality) (simp_all add: after_first_delivery_objs after_first_delivery_rest)

subsection \<open>A proxy whose listener owns the handler table\<close>

text \<open>
  With the handler table unbuilt or built by the proxy's own listener, the two events
  update the cached state of that proxy, and the accessors read it back.
\<close>

lemma cached_state_follows_events_own_table:
  assumes "objs w this = Some self" and "table_bound_to this w"
  shows "fst (listener this (status_event (m_target self) S) w) = Inr ()
       \<and> objs (snd (listener this (status_event (m_target self) S) w)) this
            = Some (self\<lparr>m_status := S, m_statusChanged := m_statusChanged self @ [S]\<rparr>)
       \<and> status this (snd (listener this (status_event (m_target self) S) w))
            = (Inr S, snd (listener this (status_event (m_target self) S) w))
       \<and> rpc (snd (listener this (status_event (m_target self) S) w)) = rpc w
       \<and> fst (listener this (position_event (m_target self) P) w) = Inr ()
       \<and> objs (snd (listener this (position_event (m_target self) P) w)) this
            = Some (self\<lparr>m_playbackPosition := P, m_positionChanged := Suc (m_positionChanged self)\<rparr>)
       \<and> playbackPosition this (snd (listener this (position_event (m_target self) P) w))
            = (Inr P, snd (listener this (position_event (m_target self) P) w))
       \<and> rpc (snd (listener this (position_event (m_target self) P) w)) = rpc w
       \<and> status this w = (Inr (m_status self), w)
       \<and> playbackPosition this w = (Inr (m_playbackPosition self), w)"
  using assms
  by (simp add: status_event_def position_event_def listener_statusChanged
      listener_positionChanged status_def playbackPosition_def)

text \<open>
  With the handler table unbuilt or built by the proxy's own listener, a tick event for an
  unregistered key creates the one channel that every later access returns, and the tick
  stays the first value of that channel's history.
\<close>

lemma event_before_access_converges_own_table:
  assumes o: "objs w this = Some self" and tb: "table_bound_to this w"
    and un: "m_midiTickPlayed self K = None"
  shows "let w1 = snd (listener this (tick_event (m_target self) K t) w); c = next_channel w in
           fst (listener this (tick_event (m_target self) K t) w) = Inr ()
         \<and> registry this w1 K = Some c
         \<and> channels w1 c = [t]
         \<and> next_channel w1 = Suc c
         \<and> rpc w1 = rpc w
         \<and> midiTickPlayed this K w1 = (Inr c, w1)
         \<and> (\<forall>acts rs w2. run this acts w1 = (Inr rs, w2) \<longrightarrow>
               midiTickPlayed this K w2 = (Inr c, w2)
             \<and> (\<forall>c'. (K, c') \<in> set rs \<longrightarrow> c' = c)
             \<and> (\<exists>ts. channels w2 c = t # ts))"
proof -
  let ?c = "next_channel w"
  let ?self1 = "self\<lparr>m_midiTickPlayed := (m_midiTickPlayed self)(K \<mapsto> ?c)\<rparr>"
  let ?w1 = "snd (listener this (tick_event (m_target self) K t) w)"
  note L = listener_midiTickPlayed_new [OF o tb un, of t "[]", folded tick_event_def]
  from L have r: "fst (listener this (tick_event (m_target self) K t) w) = Inr ()" by simp
  from L have o1: "objs ?w1 this = Some ?self1" by simp
  from L have ch: "channels ?w1 ?c = [t]" and nc: "next_channel ?w1 = Suc ?c"
    and rp: "rpc ?w1 = rpc w" and cs: "calls ?w1 = calls_of this"
    by simp_all
  from cs have tb1: "table_bound_to this ?w1" by (rule table_bound_after)
  have r1: "m_midiTickPlayed ?self1 K = Some ?c" by simp
  from o1 have rg: "registry this ?w1 K = Some ?c" by (simp add: registry_def)
  have hit: "midiTickPlayed this K ?w1 = (Inr ?c, ?w1)"
    by (rule midiTickPlayed_hit [OF o1 r1])
  have later: "midiTickPlayed this K w2 = (Inr ?c, w2)
             \<and> (\<forall>c'. (K, c') \<in> set rs \<longrightarrow> c' = ?c)
             \<and> (\<exists>ts. channels w2 ?c = t # ts)"
    if run: "run this acts ?w1 = (Inr rs, w2)" for acts rs w2
  proof -
    from run_registered [OF o1 tb1 r1 run]
    have same: "\<forall>c'. (K, c') \<in> set rs \<longrightarrow> c' = ?c"
      and "\<exists>self'. objs w2 this = Some self' \<and> m_midiTickPlayed self' K = Some ?c"
      by blast+
    then obtain self2 where o2: "objs w2 this = Some self2" and r2: "m_midiTickPlayed self2 K = Some ?c"
      by blast
    from run have w2: "snd (run this acts ?w1) = w2" by simp
    from run_channels_grow [of ?w1 this acts] nc w2
    have "\<exists>ts. channels w2 ?c = channels ?w1 ?c @ ts" by simp
    with ch have "\<exists>ts. channels w2 ?c = t # ts" by simp
    with midiTickPlayed_hit [OF o2 r2] same show ?thesis by blast
  qed
  from r rg ch nc rp hit later show ?thesis unfolding Let_def by blast
qed

text \<open>
  After the destructor, deliveries run no closure of the destroyed proxy, provided its one
  registration is the stored one and either the handler table holds none of its closures or
  no other proxy listens.
\<close>

lemma no_closure_runs_after_destruction_unshared:
  assumes o: "objs w this = Some self"
    and own: "\<forall>l \<in> set (listeners (rpc w)). snd l = this \<longrightarrow> fst l = m_listenID self"
    and tbl: "(\<forall>c \<in> snd ` set (calls w). captured c \<noteq> this)
              \<or> (\<forall>l \<in> set (listeners (rpc w)). snd l = this)"
  shows "fst (destroy this w) = Inr ()
       \<and> listeners (rpc (snd (destroy this w)))
            = filter (\<lambda>l. fst l \<noteq> m_listenID self) (listeners (rpc w))
       \<and> this \<notin> snd ` set (listeners (rpc (snd (destroy this w))))
       \<and> (\<forall>msg. runs_on this (snd (deliver msg (snd (destroy this w)))) = runs_on this w)"
proof -
  let ?w' = "snd (destroy this w)"
  let ?ls = "filter (\<lambda>l. fst l \<noteq> m_listenID self) (listeners (rpc w))"
  have ls: "listeners (rpc ?w') = ?ls" and cs: "calls ?w' = calls w" and iv: "invoked ?w' = invoked w"
    by (simp_all add: destroy_effect [OF o])
  have none: "\<forall>l \<in> set ?ls. snd l \<noteq> this" using own by auto
  have run: "runs_on this (snd (deliver msg ?w')) = runs_on this w" for msg
  proof -
    from tbl show ?thesis
    proof
      assume "\<forall>c \<in> snd ` set (calls w). captured c \<noteq> this"
      with cs have "\<forall>c \<in> snd ` set (calls ?w'). captured c \<noteq> this" by simp
      from deliver_to_others [OF none this, of msg] ls iv show ?thesis
        by (simp add: deliver_def runs_on_def)
    next
      assume "\<forall>l \<in> set (listeners (rpc w)). snd l = this"
      with none have "?ls = []" by (auto simp: filter_empty_conv)
      with ls iv show ?thesis by (simp add: deliver_def runs_on_def)
    qed
  qed
  have a: "fst (destroy this w) = Inr ()" by (simp add: destroy_effect [OF o])
  from none have b: "this \<notin> snd ` set ?ls" by force
  from a ls b run show ?thesis by simp
qed

section \<open>The claims\<close>

subsection \<open>Outbound operations and the transport-mode guard\<close>

text \<open>
  Claim C1. In serialized mode each of \<^verbatim>\<open>setMIDITrack\<close>, \<^verbatim>\<open>setAudioTrack\<close> and
  \<^verbatim>\<open>instantlyPlayMidi\<close> fails at once with the "not implemented" signal and leaves the
  whole process as it was, so no message is sent. In direct mode each of them succeeds and
  the process differs from the one before the call in exactly one more message handed to
  the transport: it is addressed to the proxy's target, named after the operation, and
  carries the arguments of the call unchanged. The signal itself is the macro
  \<^verbatim>\<open>NOT_IMPLEMENTED\<close>, which is taken from the spec.
\<close>

theorem guarded_operations_by_transport_mode:
  assumes "objs w this = Some self"
  shows "(isSerialized w \<longrightarrow>
            setMIDITrack this i ms w = (Inl NotImplemented, w)
          \<and> setAudioTrack this i au w = (Inl NotImplemented, w)
          \<and> instantlyPlayMidi this d w = (Inl NotImplemented, w))
       \<and> (\<not> isSerialized w \<longrightarrow>
            setMIDITrack this i ms w =
              (Inr (), with_sent w (Msg (m_target self) ''setMIDITrack'' [ArgTrackId i, ArgMidiStream ms]))
          \<and> setAudioTrack this i au w =
              (Inr (), with_sent w (Msg (m_target self) ''setAudioTrack'' [ArgTrackId i, ArgAudioStream au]))
          \<and> instantlyPlayMidi this d w =
              (Inr None, with_sent w (Msg (m_target self) ''instantlyPlayMidi'' [ArgMidiData d])))"
proof (intro conjI impI)
  assume s: "isSerialized w"
  from guarded_serialized [OF assms s]
  show "setMIDITrack this i ms w = (Inl NotImplemented, w)"
    and "setAudioTrack this i au w = (Inl NotImplemented, w)"
    and "instantlyPlayMidi this d w = (Inl NotImplemented, w)"
    by simp_all
next
  assume d: "\<not> isSerialized w"
  show "setMIDITrack this i ms w =
      (Inr (), with_sent w (Msg (m_target self) ''setMIDITrack'' [ArgTrackId i, ArgMidiStream ms]))"
    by (rule setMIDITrack_direct [OF assms d])
  show "setAudioTrack this i au w =
      (Inr (), with_sent w (Msg (m_target self) ''setAudioTrack'' [ArgTrackId i, ArgAudioStream au]))"
    by (rule setAudioTrack_direct [OF assms d])
  show "instantlyPlayMidi this d w =
      (Inr None, with_sent w (Msg (m_target self) ''instantlyPlayMidi'' [ArgMidiData d]))"
    by (rule instantlyPlayMidi_direct [OF assms d])
qed

text \<open>
  Claim C1, at a concrete input: the proxy of \<open>one_proxy_world\<close>, once on a serialized and
  once on a direct transport.
\<close>

theorem guarded_operations_by_transport_mode_witness:
  "setMIDITrack 0 3 (MidiStreamPtr 7) (one_proxy_world True) = (Inl NotImplemented, one_proxy_world True)
   \<and> setAudioTrack 0 3 (IAudioStreamPtr 8) (one_proxy_world True) = (Inl NotImplemented, one_proxy_world True)
   \<and> instantlyPlayMidi 0 (MidiData 9) (one_proxy_world True) = (Inl NotImplemented, one_proxy_world True)
   \<and> sent (rpc (one_proxy_world True)) = []
   \<and> sent (rpc (snd (setMIDITrack 0 3 (MidiStreamPtr 7) (one_proxy_world False))))
       = [Msg (Target Sequencer) ''setMIDITrack'' [ArgTrackId 3, ArgMidiStream (MidiStreamPtr 7)]]
   \<and> sent (rpc (snd (setAudioTrack 0 3 (IAudioStreamPtr 8) (one_proxy_world False))))
       = [Msg (Target Sequencer) ''setAudioTrack'' [ArgTrackId 3, ArgAudioStream (IAudioStreamPtr 8)]]
   \<and> sent (rpc (snd (instantlyPlayMidi 0 (MidiData 9) (one_proxy_world False))))
       = [Msg (Target Sequencer) ''instantlyPlayMidi'' [ArgMidiData (MidiData 9)]]"
proof -
  have o: "objs (one_proxy_world b) 0 = Some new_proxy" for b
    by (simp add: one_proxy_world_def)
  have s: "isSerialized (one_proxy_world True)" and d: "\<not> isSerialized (one_proxy_world False)"
    by (simp_all add: isSerialized_def one_proxy_world_def)
  have e: "sent (rpc (one_proxy_world b)) = []" and t: "m_target new_proxy = Target Sequencer" for b
    by (simp_all add: one_proxy_world_def new_proxy_def)
  from guarded_operations_by_transport_mode [OF o [of True], where i = 3
      and ms = "MidiStreamPtr 7" and au = "IAudioStreamPtr 8" and d = "MidiData 9"]
    guarded_operations_by_transport_mode [OF o [of False], where i = 3
      and ms = "MidiStreamPtr 7" and au = "IAudioStreamPtr 8" and d = "MidiData 9"]
    s d e t
  show ?thesis by (simp add: sent_with_sent)
qed

text \<open>
  Claim C5, as stated, asks every one of the twelve operations to send exactly one message
  for every argument tuple. On a serialized transport \<^verbatim>\<open>setMIDITrack\<close> takes the branch of
  the guard: the call fails and the transport has been handed no message.
\<close>

theorem serialized_setMIDITrack_sends_nothing:
  "fst (setMIDITrack 0 3 (MidiStreamPtr 7) (one_proxy_world True)) = Inl NotImplemented
   \<and> sent (rpc (snd (setMIDITrack 0 3 (MidiStreamPtr 7) (one_proxy_world True)))) = []"
  by (simp add: setMIDITrack_def NOT_IMPLEMENTED_def isSerialized_def one_proxy_world_def)

text \<open>
  Claim C5, amended. The nine operations without a resource handle
  (\<^verbatim>\<open>initMIDITrack\<close>, \<^verbatim>\<open>initAudioTrack\<close>, \<^verbatim>\<open>play\<close>, \<^verbatim>\<open>pause\<close>, \<^verbatim>\<open>stop\<close>, \<^verbatim>\<open>seek\<close>,
  \<^verbatim>\<open>rewind\<close>, \<^verbatim>\<open>setLoop\<close>, \<^verbatim>\<open>unsetLoop\<close>) in every transport mode, and the three guarded
  operations on a direct transport, return normally and change the process in exactly one
  way: one more message is handed to the transport, addressed to the proxy's own target,
  with the operation's name as method and the operation's parameters, in order, as
  arguments. Nothing is read from the transport and no listener runs, so no acknowledgment
  is awaited.
\<close>

theorem operations_send_one_message:
  assumes "objs w this = Some self"
  shows "initMIDITrack this i w = (Inr (), with_sent w (Msg (m_target self) ''initMIDITrack'' [ArgTrackId i]))
    \<and> initAudioTrack this i w = (Inr (), with_sent w (Msg (m_target self) ''initAudioTrack'' [ArgTrackId i]))
    \<and> play this w = (Inr (), with_sent w (Msg (m_target self) ''play'' []))
    \<and> pause this w = (Inr (), with_sent w (Msg (m_target self) ''pause'' []))
    \<and> stop this w = (Inr (), with_sent w (Msg (m_target self) ''stop'' []))
    \<and> seek this pos w = (Inr (), with_sent w (Msg (m_target self) ''seek'' [ArgUInt64 pos]))
    \<and> rewind this w = (Inr (), with_sent w (Msg (m_target self) ''rewind'' []))
    \<and> setLoop this fromMs toMs w =
         (Inr (), with_sent w (Msg (m_target self) ''setLoop'' [ArgUInt64 fromMs, ArgUInt64 toMs]))
    \<and> unsetLoop this w = (Inr (), with_sent w (Msg (m_target self) ''unsetLoop'' []))
    \<and> (\<not> isSerialized w \<longrightarrow>
          setMIDITrack this i ms w =
            (Inr (), with_sent w (Msg (m_target self) ''setMIDITrack'' [ArgTrackId i, ArgMidiStream ms]))
        \<and> setAudioTrack this i au w =
            (Inr (), with_sent w (Msg (m_target self) ''setAudioTrack'' [ArgTrackId i, ArgAudioStream au]))
        \<and> instantlyPlayMidi this d w =
            (Inr None, with_sent w (Msg (m_target self) ''instantlyPlayMidi'' [ArgMidiData d])))"
  using unguarded_operations [OF assms]
    setMIDITrack_direct [OF assms] setAudioTrack_direct [OF assms] instantlyPlayMidi_direct [OF assms]
  by simp

text \<open>Claim C5, amended, at concrete inputs on both kinds of transport.\<close>

theorem operations_send_one_message_witness:
  "sent (rpc (snd (seek 0 1000 (one_proxy_world True)))) = [Msg (Target Sequencer) ''seek'' [ArgUInt64 1000]]
   \<and> sent (rpc (snd (setLoop 0 5 20 (one_proxy_world True))))
        = [Msg (Target Sequencer) ''setLoop'' [ArgUInt64 5, ArgUInt64 20]]
   \<and> sent (rpc (snd (play 0 (one_proxy_world True)))) = [Msg (Target Sequencer) ''play'' []]
   \<and> sent (rpc (snd (setMIDITrack 0 3 (MidiStreamPtr 7) (one_proxy_world False))))
        = [Msg (Target Sequencer) ''setMIDITrack'' [ArgTrackId 3, ArgMidiStream (MidiStreamPtr 7)]]"
proof -
  have o: "objs (one_proxy_world b) 0 = Some new_proxy" for b
    by (simp add: one_proxy_world_def)
  have d: "\<not> isSerialized (one_proxy_world False)"
    by (simp add: isSerialized_def one_proxy_world_def)
  have e: "sent (rpc (one_proxy_world b)) = []" and t: "m_target new_proxy = Target Sequencer" for b
    by (simp_all add: one_proxy_world_def new_proxy_def)
  from operations_send_one_message [OF o [of True], where i = 3 and pos = 1000
      and fromMs = 5 and toMs = 20 and ms = "MidiStreamPtr 7" and au = "IAudioStreamPtr 8"
      and d = "MidiData 9"]
    operations_send_one_message [OF o [of False], where i = 3 and pos = 1000
      and fromMs = 5 and toMs = 20 and ms = "MidiStreamPtr 7" and au = "IAudioStreamPtr 8"
      and d = "MidiData 9"]
    d e t
  show ?thesis by (simp add: sent_with_sent)
qed

subsection \<open>The listener: filtering and unknown methods\<close>

text \<open>
  Claim C4. A message whose target differs from the target of the proxy is ignored by the
  proxy's listener: the call returns normally and the whole process is as before. In
  particular the handler table is neither built nor searched, no handler closure runs and
  nothing is logged, so the comparison of the targets comes before any lookup.
\<close>

theorem foreign_target_ignored:
  assumes "objs w this = Some self" and "msg_target msg \<noteq> m_target self"
  shows "listener this msg w = (Inr (), w)
       \<and> calls (snd (listener this msg w)) = calls w
       \<and> invoked (snd (listener this msg w)) = invoked w
       \<and> logged (snd (listener this msg w)) = logged w"
  using assms by (simp add: listener_def)

text \<open>Claim C4, for a status event addressed to another target.\<close>

theorem foreign_target_ignored_witness:
  "listener 0 (status_event (Target (OtherTarget 1)) Playing) (one_proxy_world False)
     = (Inr (), one_proxy_world False)
   \<and> calls (one_proxy_world False) = [] \<and> invoked (one_proxy_world False) = []"
proof -
  have a: "objs (one_proxy_world False) 0 = Some new_proxy"
    by (simp add: one_proxy_world_def)
  have b: "msg_target (status_event (Target (OtherTarget 1)) Playing) \<noteq> m_target new_proxy"
    by (simp add: new_proxy_def status_event_def)
  have c: "calls (one_proxy_world False) = []" and d: "invoked (one_proxy_world False) = []"
    by (simp_all add: one_proxy_world_def)
  from foreign_target_ignored [OF a b] c d show ?thesis by simp
qed

text \<open>
  Claim C8. A message addressed to the proxy's target whose method is not a key of the
  handler table (the table as the lookup finds it, that is after the guarded block has
  built it when it was empty) is logged and dropped: the listener returns normally to the
  delivery context, one line is written to the log, and no handler closure runs.
\<close>

theorem unknown_method_dropped:
  assumes "objs w this = Some self" and "msg_target msg = m_target self"
    and "msg_method msg \<notin> fst ` set (calls (bind_calls this w))"
  shows "listener this msg w =
           (Inr (), LOGE (''not found method: '' @ msg_method msg) (bind_calls this w))
       \<and> invoked (snd (listener this msg w)) = invoked w
       \<and> logged (snd (listener this msg w)) = logged w @ [''not found method: '' @ msg_method msg]"
proof -
  from assms(3) have n: "map_of (calls (bind_calls this w)) (msg_method msg) = None"
    by (simp add: map_of_eq_None_iff)
  have i: "invoked (bind_calls this w) = invoked w" and l: "logged (bind_calls this w) = logged w"
    by (simp_all add: bind_calls_def)
  from assms(1,2) n i l show ?thesis
    by (simp add: listener_matching LOGE_def)
qed

text \<open>Claim C8, for an inbound message named \<^verbatim>\<open>play\<close>, which no handler is registered for.\<close>

theorem unknown_method_dropped_witness:
  "fst (listener 0 (Msg (Target Sequencer) ''play'' []) (one_proxy_world False)) = Inr ()
   \<and> invoked (snd (listener 0 (Msg (Target Sequencer) ''play'' []) (one_proxy_world False))) = []
   \<and> logged (snd (listener 0 (Msg (Target Sequencer) ''play'' []) (one_proxy_world False)))
        = [''not found method: play'']"
proof -
  have a: "objs (one_proxy_world False) 0 = Some new_proxy"
    by (simp add: one_proxy_world_def)
  have b: "msg_target (Msg (Target Sequencer) ''play'' []) = m_target new_proxy"
    by (simp add: new_proxy_def)
  have c: "msg_method (Msg (Target Sequencer) ''play'' [])
             \<notin> fst ` set (calls (bind_calls 0 (one_proxy_world False)))"
    by (simp add: bind_calls_def bindMethod_def one_proxy_world_def)
  have d: "invoked (one_proxy_world False) = []" and e: "logged (one_proxy_world False) = []"
    by (simp_all add: one_proxy_world_def)
  from unknown_method_dropped [OF a b c] d e show ?thesis
    by (simp add: LOGE_def bind_calls_def)
qed

text \<open>
  Claim C10. A message that the listener drops, because its target is not the proxy's or
  because its method is not a key of the handler table, leaves every proxy object as it
  was (so the cached status, the cached playback position and the registry of
  per-track channels read as before), leaves the transport as it was (so nothing is
  sent), and creates and touches no channel.
\<close>

theorem dropped_message_frame:
  assumes "objs w this = Some self"
    and "msg_target msg \<noteq> m_target self
         \<or> msg_method msg \<notin> fst ` set (calls (bind_calls this w))"
  shows "fst (listener this msg w) = Inr ()
       \<and> objs (snd (listener this msg w)) = objs w
       \<and> status this (snd (listener this msg w)) = (Inr (m_status self), snd (listener this msg w))
       \<and> playbackPosition this (snd (listener this msg w))
            = (Inr (m_playbackPosition self), snd (listener this msg w))
       \<and> registry this (snd (listener this msg w)) = m_midiTickPlayed self
       \<and> rpc (snd (listener this msg w)) = rpc w
       \<and> channels (snd (listener this msg w)) = channels w
       \<and> next_channel (snd (listener this msg w)) = next_channel w"
proof (cases "msg_target msg = m_target self")
  case False
  with assms(1) have "listener this msg w = (Inr (), w)" by (simp add: listener_def)
  with assms(1) show ?thesis
    by (simp add: status_def playbackPosition_def registry_def)
next
  case True
  with assms(2) have "msg_method msg \<notin> fst ` set (calls (bind_calls this w))" by simp
  then have n: "map_of (calls (bind_calls this w)) (msg_method msg) = None"
    by (simp add: map_of_eq_None_iff)
  have "listener this msg w =
      (Inr (), LOGE (''not found method: '' @ msg_method msg) (bind_calls this w))"
    using assms(1) True n by (simp add: listener_matching)
  with assms(1) show ?thesis
    by (simp add: LOGE_def bind_calls_def status_def playbackPosition_def registry_def)
qed

text \<open>Claim C10, once for a foreign target and once for an unknown method.\<close>

theorem dropped_message_frame_witness:
  "fst (status 0 (snd (listener 0 (status_event (Target (OtherTarget 1)) Playing) (one_proxy_world False))))
     = Inr Stopped
   \<and> sent (rpc (snd (listener 0 (status_event (Target (OtherTarget 1)) Playing) (one_proxy_world False)))) = []
   \<and> fst (status 0 (snd (listener 0 (Msg (Target Sequencer) ''play'' []) (one_proxy_world False))))
     = Inr Stopped
   \<and> sent (rpc (snd (listener 0 (Msg (Target Sequencer) ''play'' []) (one_proxy_world False)))) = []"
proof -
  have a: "objs (one_proxy_world False) 0 = Some new_proxy"
    by (simp add: one_proxy_world_def)
  have b: "msg_target (status_event (Target (OtherTarget 1)) Playing) \<noteq> m_target new_proxy
         \<or> msg_method (status_event (Target (OtherTarget 1)) Playing)
             \<notin> fst ` set (calls (bind_calls 0 (one_proxy_world False)))"
    by (simp add: new_proxy_def status_event_def)
  have c: "msg_target (Msg (Target Sequencer) ''play'' []) \<noteq> m_target new_proxy
         \<or> msg_method (Msg (Target Sequencer) ''play'' [])
             \<notin> fst ` set (calls (bind_calls 0 (one_proxy_world False)))"
    by (simp add: bind_calls_def bindMethod_def one_proxy_world_def)
  have s: "m_status new_proxy = Stopped" and e: "sent (rpc (one_proxy_world False)) = []"
    by (simp_all add: new_proxy_def one_proxy_world_def)
  from dropped_message_frame [OF a b] dropped_message_frame [OF a c] s e
  show ?thesis by simp
qed

subsection \<open>Cached state\<close>

text \<open>
  Claim C7 says that the listener, given \<^verbatim>\<open>statusChanged(S)\<close> or \<^verbatim>\<open>positionChanged(P)\<close>,
  updates the cached status or position that \<^verbatim>\<open>status()\<close> and \<^verbatim>\<open>playbackPosition()\<close>
  return. The handlers write to the proxy whose listener built the static table. In
  \<open>after_first_delivery\<close> that is the proxy at 0: the listener of the proxy at 1 handles
  \<^verbatim>\<open>statusChanged(Paused)\<close> and \<^verbatim>\<open>positionChanged(42)\<close> and returns normally, and
  afterwards the proxy at 1 still reads \<open>Stopped\<close> and position 0, while the proxy at 0
  reads \<open>Paused\<close> and 42. With the table unbuilt or built by the proxy's own listener the
  claim holds (\<open>cached_state_follows_events_own_table\<close>).
\<close>

theorem cached_state_stale_under_foreign_table:
  "fst (status 1 after_first_delivery) = Inr Stopped
   \<and> fst (listener 1 (status_event (Target Sequencer) Paused) after_first_delivery) = Inr ()
   \<and> fst (status 1 (snd (listener 1 (status_event (Target Sequencer) Paused) after_first_delivery)))
        = Inr Stopped
   \<and> fst (status 0 (snd (listener 1 (status_event (Target Sequencer) Paused) after_first_delivery)))
        = Inr Paused
   \<and> fst (listener 1 (position_event (Target Sequencer) 42) after_first_delivery) = Inr ()
   \<and> fst (playbackPosition 1 (snd (listener 1 (position_event (Target Sequencer) 42) after_first_delivery)))
        = Inr 0
   \<and> fst (playbackPosition 0 (snd (listener 1 (position_event (Target Sequencer) 42) after_first_delivery)))
        = Inr 42"
  by (simp add: after_first_delivery_eq new_proxy_def status_event_def position_event_def
      listener_def bind_calls_def calls_of_def invoke_def statusChanged_handler_def
      positionChanged_handler_def arg_Status_def arg_float_def status_def playbackPosition_def Let_def)

subsection \<open>The subscription registry\<close>

text \<open>
  Claim C2, as stated, asks for exactly one bind request for a key however its channel is
  reached. When an inbound \<^verbatim>\<open>midiTickPlayed\<close> event for key 5 is dispatched first, the
  handler inserts the channel itself (\<^verbatim>\<open>operator[]\<close>) without sending anything; the
  local \<^verbatim>\<open>midiTickPlayed(5)\<close> that follows finds the key, returns that channel and sends
  nothing either: no bind request for key 5 has been sent.
\<close>

theorem no_bind_request_when_event_comes_first:
  "fst (listener 0 (tick_event (Target Sequencer) 5 10) (one_proxy_world False)) = Inr ()
   \<and> fst (midiTickPlayed 0 5
            (snd (listener 0 (tick_event (Target Sequencer) 5 10) (one_proxy_world False)))) = Inr 0
   \<and> sent (rpc (snd (midiTickPlayed 0 5
            (snd (listener 0 (tick_event (Target Sequencer) 5 10) (one_proxy_world False)))))) = []"
proof -
  have a: "objs (one_proxy_world False) 0 = Some new_proxy"
    by (simp add: one_proxy_world_def)
  have b: "table_bound_to 0 (one_proxy_world False)"
    by (simp add: table_bound_to_def one_proxy_world_def)
  have c: "m_midiTickPlayed new_proxy 5 = None" and t: "m_target new_proxy = Target Sequencer"
    by (simp_all add: new_proxy_def)
  have n: "next_channel (one_proxy_world False) = 0" and e: "sent (rpc (one_proxy_world False)) = []"
    by (simp_all add: one_proxy_world_def)
  from listener_midiTickPlayed_new [OF a b c, of 10 "[]"] t n e show ?thesis
    by (simp add: tick_event_def midiTickPlayed_def)
qed

text \<open>
  Claim C2, amended. For any sequence of uses of one proxy (local accesses for any keys and
  inbound messages of any kind, running without a fault) and any key \<open>K\<close>: all local
  accesses for \<open>K\<close> return the same channel; the number of bind requests for \<open>K\<close> grows
  by at most one, and not at all when \<open>K\<close> was registered at the start or the sequence has
  no local access for \<open>K\<close>. When the handler table is unbuilt or was built by this proxy's
  own listener, it grows by one exactly when \<open>K\<close> was not registered at the start and a
  local access for \<open>K\<close> comes before every inbound tick event for \<open>K\<close>, and otherwise
  not at all. Only the last sentence depends on the handler table.
\<close>

theorem bind_request_sent_iff_access_first:
  assumes o: "objs w this = Some self" and run: "run this acts w = (Inr rs, w')"
  shows "(\<forall>c c'. (K, c) \<in> set rs \<longrightarrow> (K, c') \<in> set rs \<longrightarrow> c = c')
       \<and> bind_requests (m_target self) K (sent (rpc w'))
            \<le> bind_requests (m_target self) K (sent (rpc w)) + 1
       \<and> (m_midiTickPlayed self K \<noteq> None \<or> Access K \<notin> set acts \<longrightarrow>
            bind_requests (m_target self) K (sent (rpc w'))
              = bind_requests (m_target self) K (sent (rpc w)))
       \<and> (table_bound_to this w \<longrightarrow>
            bind_requests (m_target self) K (sent (rpc w')) =
              bind_requests (m_target self) K (sent (rpc w))
                + (if m_midiTickPlayed self K = None \<and> local_first (m_target self) K acts
                   then 1 else 0))"
proof -
  note any = run_at_most_one_bind [OF o run, of K]
  have own: "bind_requests (m_target self) K (sent (rpc w')) =
              bind_requests (m_target self) K (sent (rpc w))
                + (if m_midiTickPlayed self K = None \<and> local_first (m_target self) K acts
                   then 1 else 0)"
    if tb: "table_bound_to this w"
  proof (cases "m_midiTickPlayed self K")
    case None
    from run_unregistered [OF o tb None run] None show ?thesis by simp
  next
    case (Some c)
    from run_registered [OF o tb Some run] Some show ?thesis by auto
  qed
  from any own show ?thesis by blast
qed

text \<open>
  Claim C2, amended, on a new proxy for key 5: access first (one bind request, three
  accesses return channel 0), event first (no bind request), and key 6, which is never
  accessed (no bind request); and for the proxy at 1 of \<open>after_first_delivery\<close>, whose
  handler table was built by the proxy at 0 (both accesses return channel 1, at most one
  bind request).
\<close>

theorem bind_request_sent_iff_access_first_witness:
  "fst (run 0 [Access 5, Inbound (tick_event (Target Sequencer) 5 10), Access 5, Access 5]
          (one_proxy_world False)) = Inr [(5, 0), (5, 0), (5, 0)]
   \<and> bind_requests (Target Sequencer) 5
        (sent (rpc (snd (run 0 [Access 5, Inbound (tick_event (Target Sequencer) 5 10), Access 5, Access 5]
          (one_proxy_world False))))) = 1
   \<and> fst (run 0 [Inbound (tick_event (Target Sequencer) 5 10), Access 5, Access 5]
          (one_proxy_world False)) = Inr [(5, 0), (5, 0)]
   \<and> bind_requests (Target Sequencer) 5
        (sent (rpc (snd (run 0 [Inbound (tick_event (Target Sequencer) 5 10), Access 5, Access 5]
          (one_proxy_world False))))) = 0
   \<and> bind_requests (Target Sequencer) 6
        (sent (rpc (snd (run 0 [Inbound (tick_event (Target Sequencer) 5 10), Access 5, Access 5]
          (one_proxy_world False))))) = 0
   \<and> fst (run 1 [Inbound (tick_event (Target Sequencer) 5 10), Access 5, Access 5]
          after_first_delivery) = Inr [(5, 1), (5, 1)]
   \<and> bind_requests (Target Sequencer) 5
        (sent (rpc (snd (run 1 [Inbound (tick_event (Target Sequencer) 5 10), Access 5, Access 5]
          after_first_delivery)))) \<le> 1"
proof -
  let ?w = "one_proxy_world False"
  let ?a1 = "[Access 5, Inbound (tick_event (Target Sequencer) 5 10), Access 5, Access 5]"
  let ?a2 = "[Inbound (tick_event (Target Sequencer) 5 10), Access 5, Access 5]"
  have a: "objs ?w 0 = Some new_proxy"
    by (simp add: one_proxy_world_def)
  have b: "table_bound_to 0 ?w"
    by (simp add: table_bound_to_def one_proxy_world_def)
  have c: "m_midiTickPlayed new_proxy 5 = None" and t: "m_target new_proxy = Target Sequencer"
    by (simp_all add: new_proxy_def)
  have e: "sent (rpc ?w) = []"
    by (simp add: one_proxy_world_def)
  have r1: "fst (run 0 ?a1 ?w) = Inr [(5, 0), (5, 0), (5, 0)]"
    by (simp add: one_proxy_world_def new_proxy_def tick_event_def midiTickPlayed_def listener_def
        bind_calls_def bindMethod_def invoke_def midiTickPlayed_handler_def arg_track_id_def
        arg_tick_def new_Channel_def Channel_send_def send_def make_arg1_def Let_def)
  have r2: "fst (run 0 ?a2 ?w) = Inr [(5, 0), (5, 0)]"
    by (simp add: one_proxy_world_def new_proxy_def tick_event_def midiTickPlayed_def listener_def
        bind_calls_def bindMethod_def invoke_def midiTickPlayed_handler_def arg_track_id_def
        arg_tick_def new_Channel_def Channel_send_def send_def make_arg1_def Let_def)
  from r1 have h1: "run 0 ?a1 ?w = (Inr [(5, 0), (5, 0), (5, 0)], snd (run 0 ?a1 ?w))"
    by (simp add: prod_eq_iff)
  from r2 have h2: "run 0 ?a2 ?w = (Inr [(5, 0), (5, 0)], snd (run 0 ?a2 ?w))"
    by (simp add: prod_eq_iff)
  have l1: "local_first (Target Sequencer) 5 ?a1" and l2: "\<not> local_first (Target Sequencer) 5 ?a2"
    by (simp_all add: tick_event_for_def tick_event_def arg_track_id_def)
  have n6: "Access 6 \<notin> set ?a2" by simp
  have a3: "objs after_first_delivery 1 = Some (new_proxy\<lparr>m_listenID := 1\<rparr>)"
    and e3: "sent (rpc after_first_delivery) = []"
    by (simp_all add: after_first_delivery_eq)
  have t3: "m_target (new_proxy\<lparr>m_listenID := 1\<rparr>) = Target Sequencer"
    by (simp add: new_proxy_def)
  have r3: "fst (run 1 ?a2 after_first_delivery) = Inr [(5, 1), (5, 1)]"
    by (simp add: after_first_delivery_eq new_proxy_def tick_event_def midiTickPlayed_def listener_def
        bind_calls_def calls_of_def invoke_def midiTickPlayed_handler_def arg_track_id_def
        arg_tick_def new_Channel_def Channel_send_def send_def make_arg1_def Let_def)
  then have h3: "run 1 ?a2 after_first_delivery = (Inr [(5, 1), (5, 1)], snd (run 1 ?a2 after_first_delivery))"
    by (simp add: prod_eq_iff)
  note T1 = bind_request_sent_iff_access_first [OF a h1, of 5, unfolded t e]
  note T2 = bind_request_sent_iff_access_first [OF a h2, of 5, unfolded t e]
  note T3 = bind_request_sent_iff_access_first [OF a h2, of 6, unfolded t e]
  note T4 = bind_request_sent_iff_access_first [OF a3 h3, of 5, unfolded t3 e3]
  from T1 b have "bind_requests (Target Sequencer) 5 (sent (rpc (snd (run 0 ?a1 ?w)))) =
      bind_requests (Target Sequencer) 5 [] + (if m_midiTickPlayed new_proxy 5 = None \<and> local_first (Target Sequencer) 5 ?a1 then 1 else 0)"
    by blast
  with c l1 have c1: "bind_requests (Target Sequencer) 5 (sent (rpc (snd (run 0 ?a1 ?w)))) = 1"
    by simp
  from T2 b have "bind_requests (Target Sequencer) 5 (sent (rpc (snd (run 0 ?a2 ?w)))) =
      bind_requests (Target Sequencer) 5 [] + (if m_midiTickPlayed new_proxy 5 = None \<and> local_first (Target Sequencer) 5 ?a2 then 1 else 0)"
    by blast
  with l2 have c2: "bind_requests (Target Sequencer) 5 (sent (rpc (snd (run 0 ?a2 ?w)))) = 0"
    by simp
  from T3 n6 have "bind_requests (Target Sequencer) 6 (sent (rpc (snd (run 0 ?a2 ?w)))) =
      bind_requests (Target Sequencer) 6 []"
    by blast
  then have c3: "bind_requests (Target Sequencer) 6 (sent (rpc (snd (run 0 ?a2 ?w)))) = 0"
    by simp
  from T4 have "bind_requests (Target Sequencer) 5 (sent (rpc (snd (run 1 ?a2 after_first_delivery))))
      \<le> bind_requests (Target Sequencer) 5 [] + 1"
    by blast
  then have c4: "bind_requests (Target Sequencer) 5 (sent (rpc (snd (run 1 ?a2 after_first_delivery)))) \<le> 1"
    by simp
  from r1 c1 r2 c2 c3 r3 c4 show ?thesis by blast
qed

text \<open>
  Claim C3 says that an inbound \<^verbatim>\<open>midiTickPlayed\<close> event for a key \<open>K\<close> that arrives before
  any local access creates the channel that a later local \<^verbatim>\<open>midiTickPlayed(K)\<close> returns, so
  that the event is not lost. The handler inserts into the registry of the proxy whose
  listener built the static table. In \<open>after_first_delivery\<close> that is the proxy at 0: the
  listener of the proxy at 1 handles the event for key 5 with tick 10 and returns normally;
  the channel with the tick is registered for the proxy at 0, the proxy at 1 has no
  channel for key 5, and its later \<^verbatim>\<open>midiTickPlayed(5)\<close> returns a second, empty channel.
  With the table unbuilt or built by the proxy's own listener the claim holds
  (\<open>event_before_access_converges_own_table\<close>).
\<close>

theorem event_lost_under_foreign_table:
  "registry 1 after_first_delivery 5 = None
   \<and> fst (listener 1 (tick_event (Target Sequencer) 5 10) after_first_delivery) = Inr ()
   \<and> registry 1 (snd (listener 1 (tick_event (Target Sequencer) 5 10) after_first_delivery)) 5 = None
   \<and> registry 0 (snd (listener 1 (tick_event (Target Sequencer) 5 10) after_first_delivery)) 5 = Some 0
   \<and> channels (snd (listener 1 (tick_event (Target Sequencer) 5 10) after_first_delivery)) 0 = [10]
   \<and> fst (midiTickPlayed 1 5
             (snd (listener 1 (tick_event (Target Sequencer) 5 10) after_first_delivery))) = Inr 1
   \<and> channels (snd (midiTickPlayed 1 5
             (snd (listener 1 (tick_event (Target Sequencer) 5 10) after_first_delivery)))) 1 = []"
  by (simp add: after_first_delivery_eq new_proxy_def tick_event_def registry_def
      listener_def bind_calls_def calls_of_def invoke_def midiTickPlayed_handler_def
      arg_track_id_def arg_tick_def new_Channel_def Channel_send_def midiTickPlayed_def
      send_def make_arg1_def Let_def)

subsection \<open>The process-wide handler table\<close>

text \<open>
  Claim C6 says that the one handler table may be shared by all proxies, each message
  taking effect on the proxy whose listener received it. The closures of the table capture
  \<^verbatim>\<open>this\<close> of the proxy whose listener built the table, so this fails with two proxies:
  both are set up on one transport and one \<^verbatim>\<open>statusChanged(Playing)\<close> is delivered. Both
  listeners run; both times the closure of the proxy at 0 runs. The proxy at 0 ends with
  status \<open>Playing\<close>, the proxy at 1 keeps \<open>Stopped\<close>.
\<close>

theorem shared_table_dispatches_to_first_proxy:
  "fst (deliver (status_event (Target Sequencer) Playing) two_proxies_listening) = Inr ()
   \<and> listeners (rpc two_proxies_listening) = [(0, 0), (1, 1)]
   \<and> fst (status 0 two_proxies_listening) = Inr Stopped
   \<and> fst (status 1 two_proxies_listening) = Inr Stopped
   \<and> fst (status 0 (snd (deliver (status_event (Target Sequencer) Playing) two_proxies_listening)))
        = Inr Playing
   \<and> fst (status 1 (snd (deliver (status_event (Target Sequencer) Playing) two_proxies_listening)))
        = Inr Stopped
   \<and> invoked (snd (deliver (status_event (Target Sequencer) Playing) two_proxies_listening))
        = [Call StatusChangedHandler 0, Call StatusChangedHandler 0]"
  by (simp add: two_proxies_listening_def two_proxy_world_def new_proxy_def setup_proxy_def
      listen_def deliver_def status_event_def listener_def bind_calls_def bindMethod_def
      invoke_def statusChanged_handler_def arg_Status_def status_def Let_def)

subsection \<open>Teardown\<close>

text \<open>
  Claim C9 says that, the destructor having revoked the listener, no handler of the
  destroyed proxy runs for a message delivered afterwards. The destructor does call
  \<^verbatim>\<open>unlisten\<close> with the stored id, but the closures that captured the proxy stay in the
  static table. In \<open>after_first_delivery\<close> the table holds the closures of the proxy at
  0: after its destructor only the listener of the proxy at 1 is registered, the next
  \<^verbatim>\<open>statusChanged\<close> that the transport delivers reaches that listener, and it runs the
  closure of the destroyed proxy, on an address at which no object lives. When the table
  holds no closure of the destroyed proxy, or no other proxy listens, the claim holds for
  deliveries right after the destructor (\<open>no_closure_runs_after_destruction_unshared\<close>).
\<close>

theorem destroyed_proxy_closure_still_runs:
  "fst (destroy 0 after_first_delivery) = Inr ()
   \<and> objs (snd (destroy 0 after_first_delivery)) 0 = None
   \<and> listeners (rpc (snd (destroy 0 after_first_delivery))) = [(1, 1)]
   \<and> runs_on 0 (snd (destroy 0 after_first_delivery))
        = [Call StatusChangedHandler 0, Call StatusChangedHandler 0]
   \<and> fst (deliver (status_event (Target Sequencer) Paused) (snd (destroy 0 after_first_delivery)))
        = Inl InvalidThis
   \<and> runs_on 0 (snd (deliver (status_event (Target Sequencer) Paused)
                          (snd (destroy 0 after_first_delivery))))
        = [Call StatusChangedHandler 0, Call StatusChangedHandler 0, Call StatusChangedHandler 0]"
  by (simp add: after_first_delivery_eq new_proxy_def destroy_def unlisten_def deliver_def
      status_event_def listener_def bind_calls_def calls_of_def invoke_def
      statusChanged_handler_def arg_Status_def runs_on_def Let_def)

end
